theory Spec2Isabelle
  imports Complex_Main "HOL-Library.Word"
begin

unbundle bit_operations_syntax

section \<open>Errors\<close>

text \<open>
  The source signals an error with \<^verbatim>\<open>throw "<message>"\<close> (exceptions enabled, the
  regular build).  Each constructor below stands for one thrown literal; the last group are
  the places where the C++ has no defined result (a crash or undefined behaviour), which the
  model turns into explicit results as well.
\<close>

datatype error =
    NotRIFF                 \<comment> \<open>"file does not start with RIFF id"\<close>
  | NotWAVE                 \<comment> \<open>"not a WAVE file"\<close>
  | UnknownFormat           \<comment> \<open>"unknown format"\<close>
  | DataBeforeFmt           \<comment> \<open>"data chunk before fmt chunk"\<close>
  | ChunkMissing            \<comment> \<open>"fmt chunk and/or data chunk missing"\<close>
  | ParamsLocked            \<comment> \<open>"cannot change parameters after starting to write"\<close>
  | BadChannels             \<comment> \<open>"bad # of channels"\<close>
  | BadSampleWidth          \<comment> \<open>"bad sample width"\<close>
  | BadFrameRate            \<comment> \<open>"bad frame rate"\<close>
  | ChannelsNotSpecified    \<comment> \<open>"# channels not specified"\<close>
  | SampleWidthNotSpecified \<comment> \<open>"sample width not specified"\<close>
  | RateNotSpecified        \<comment> \<open>"sampling rate not specified"\<close>
  | ChunkExhausted          \<comment> \<open>the chunk accessor cannot supply the bytes asked for\<close>
  | DivisionByZero          \<comment> \<open>integer division by zero on \<^verbatim>\<open>size_t\<close>\<close>
  | ShiftTooWide            \<comment> \<open>\<^verbatim>\<open>1ull << n\<close> with \<^verbatim>\<open>n >= 64\<close>\<close>
  | FloatToIntRange         \<comment> \<open>\<^verbatim>\<open>int32_t(x)\<close> for a float outside the range of \<^verbatim>\<open>int32_t\<close>\<close>
  | BufferOverrun           \<comment> \<open>\<^verbatim>\<open>memcpy\<close> or a write beyond the object it works on\<close>
  | Terminated              \<comment> \<open>\<^verbatim>\<open>std::terminate\<close>: an exception leaves a destructor\<close>

text \<open>The error taxonomy of the specification, as a classification of the above.\<close>

datatype error_class =
    FormatError | UnsupportedFormatError | OrderError | MissingChunkError
  | ValidationError | StateError | AccessorError | Crash

fun error_class_of :: "error \<Rightarrow> error_class" where
  "error_class_of NotRIFF = FormatError"
| "error_class_of NotWAVE = FormatError"
| "error_class_of UnknownFormat = UnsupportedFormatError"
| "error_class_of DataBeforeFmt = OrderError"
| "error_class_of ChunkMissing = MissingChunkError"
| "error_class_of ParamsLocked = StateError"
| "error_class_of BadChannels = ValidationError"
| "error_class_of BadSampleWidth = ValidationError"
| "error_class_of BadFrameRate = ValidationError"
| "error_class_of ChannelsNotSpecified = ValidationError"
| "error_class_of SampleWidthNotSpecified = ValidationError"
| "error_class_of RateNotSpecified = ValidationError"
| "error_class_of ChunkExhausted = AccessorError"
| "error_class_of DivisionByZero = Crash"
| "error_class_of ShiftTooWide = Crash"
| "error_class_of FloatToIntRange = Crash"
| "error_class_of BufferOverrun = Crash"
| "error_class_of Terminated = Crash"

section \<open>The chunk accessor\<close>

type_synonym byte = "8 word"

text \<open>
  Modelled from the spec: the class \<^verbatim>\<open>Chunk\<close> of \<^verbatim>\<open>chunk.h\<close>, which is not
  part of the sources at hand.  A chunk has a four character identifier and a payload that is
  read sequentially from a cursor and written by appending; its size is the byte length of
  the payload.  A read of more bytes than are left fails.  The children of the outermost
  chunk are the sequence that \<^verbatim>\<open>parseSubchunks\<close> finds, in file order, and on the
  writing side the sequence that \<^verbatim>\<open>addSubchunk\<close> builds.
\<close>

record chunk =
  chunk_id :: string
  chunk_data :: "byte list"
  chunk_pos :: nat

definition chunk_size :: "chunk \<Rightarrow> nat" where
  "chunk_size c = length (chunk_data c)"

definition chunk_read :: "nat \<Rightarrow> chunk \<Rightarrow> error + (byte list \<times> chunk)" where
  "chunk_read n c =
     (if chunk_pos c + n \<le> length (chunk_data c)
      then Inr (take n (drop (chunk_pos c) (chunk_data c)), c\<lparr>chunk_pos := chunk_pos c + n\<rparr>)
      else Inl ChunkExhausted)"

definition chunk_write :: "byte list \<Rightarrow> chunk \<Rightarrow> chunk" where
  "chunk_write bs c = c\<lparr>chunk_data := chunk_data c @ bs\<rparr>"

definition new_chunk :: "string \<Rightarrow> chunk" where
  "new_chunk name = \<lparr>chunk_id = name, chunk_data = [], chunk_pos = 0\<rparr>"

record riff_file =
  file_chunk :: chunk
  subchunks :: "chunk list"

definition bytes_of_string :: "string \<Rightarrow> byte list" where
  "bytes_of_string s = map (\<lambda>c. of_nat (of_char c)) s"

section \<open>Little-endian fields\<close>

text \<open>
  \<^verbatim>\<open>WaveFormatEx\<close> has no padding: the tag is at offset 0, the channel count at 2, the
  frame rate at 4, the average byte rate at 8, the block alignment at 12 and the bits per
  sample at 14.  The host is little-endian, as the file format is.
\<close>

fun le_nat :: "byte list \<Rightarrow> nat" where
  "le_nat [] = 0"
| "le_nat (b # bs) = unat b + 256 * le_nat bs"

fun le_bytes :: "nat \<Rightarrow> nat \<Rightarrow> byte list" where
  "le_bytes 0 v = []"
| "le_bytes (Suc n) v = of_nat (v mod 256) # le_bytes n (v div 256)"

section \<open>Single precision arithmetic\<close>

text \<open>
  A C++ \<^verbatim>\<open>float\<close> is modelled by the real number it denotes, and every floating point
  operation by the exact operation followed by \<open>f32\<close>, the rounding to the nearest number
  with a 24 bit significand, ties to the even significand (the default rounding of
  binary32).  The exponent range is not modelled, and neither are NaN and the infinities:
  the magnitudes that arise below from finite inputs stay inside the normal range of
  binary32 or are exactly representable, and no statement below is about a NaN or an
  infinite input.
\<close>

definition round_even :: "real \<Rightarrow> int" where
  "round_even x =
     (let f = \<lfloor>x\<rfloor>; d = x - of_int f
      in if d < 1 / 2 then f else if 1 / 2 < d then f + 1 else if even f then f else f + 1)"

definition f32_exponent :: "real \<Rightarrow> int" where
  "f32_exponent x = \<lfloor>log 2 \<bar>x\<bar>\<rfloor>"

definition f32 :: "real \<Rightarrow> real" where
  "f32 x =
     (if x = 0 then 0
      else (let u = 2 powi (f32_exponent x - 23) in of_int (round_even (x / u)) * u))"

text \<open>The values a \<^verbatim>\<open>float\<close> can hold: the fixed points of the rounding.\<close>

definition is_f32 :: "real \<Rightarrow> bool" where
  "is_f32 x \<longleftrightarrow> f32 x = x"

definition trunc_zero :: "real \<Rightarrow> int" where
  "trunc_zero x = (if 0 \<le> x then \<lfloor>x\<rfloor> else \<lceil>x\<rceil>)"

text \<open>
  \<^verbatim>\<open>int32_t(x)\<close> discards the fraction; the conversion is undefined when the result does
  not fit.
\<close>

definition f32_to_int32 :: "real \<Rightarrow> error + 32 word" where
  "f32_to_int32 x =
     (if - (2 ^ 31) \<le> trunc_zero x \<and> trunc_zero x < 2 ^ 31 then Inr (word_of_int (trunc_zero x))
      else Inl FloatToIntRange)"

section \<open>The reader\<close>

definition WAVE_FORMAT_PCM :: nat where
  "WAVE_FORMAT_PCM = 1"

record wave_read =
  r_framesize :: nat
  r_file_chunk :: chunk
  r_data_chunk :: chunk
  r_comptype :: string
  r_compname :: string
  r_nframes :: nat
  r_nchannels :: nat
  r_framerate :: nat
  r_sampwidth :: nat

text \<open>
  The fields that \<^verbatim>\<open>read_fmt_chunk\<close> assigns.  The constructor's flag
  \<^verbatim>\<open>fmt_chunk_read\<close> is the presence of this record: the fields have no value before
  the first \<^verbatim>\<open>fmt\<close> chunk is read.
\<close>

record fmt_fields =
  f_nchannels :: nat
  f_framerate :: nat
  f_sampwidth :: nat
  f_framesize :: nat

definition read_fmt_chunk :: "chunk \<Rightarrow> error + fmt_fields" where
  "read_fmt_chunk c =
     (case chunk_read 14 c of
        Inl e \<Rightarrow> Inl e
      | Inr (fmt, c1) \<Rightarrow>
          (let wFormatTag = le_nat (take 2 fmt);
               wChannels = le_nat (take 2 (drop 2 fmt));
               dwFrameRate = le_nat (take 4 (drop 4 fmt))
           in if wFormatTag = WAVE_FORMAT_PCM
              then (case chunk_read 2 c1 of
                      Inl e \<Rightarrow> Inl e
                    | Inr (bits, c2) \<Rightarrow>
                        (let sampwidth = (le_nat bits + 7) div 8
                         in Inr \<lparr>f_nchannels = wChannels, f_framerate = dwFrameRate,
                                 f_sampwidth = sampwidth,
                                 f_framesize = wChannels * sampwidth\<rparr>))
              else Inl UnknownFormat))"

text \<open>
  The loop of the constructor over the sub-chunks.  It returns the fields of the last
  \<^verbatim>\<open>fmt\<close> chunk read and, when a \<^verbatim>\<open>data\<close> chunk was accepted, that chunk with the
  frame count; the division by a frame size of 0 is a crash.
\<close>

fun scan_subchunks ::
  "chunk list \<Rightarrow> fmt_fields option \<Rightarrow> error + (fmt_fields option \<times> (chunk \<times> nat) option)" where
  "scan_subchunks [] fmt = Inr (fmt, None)"
| "scan_subchunks (c # cs) fmt =
     (if chunk_id c = ''fmt ''
      then (case read_fmt_chunk c of
              Inl e \<Rightarrow> Inl e
            | Inr ff \<Rightarrow> scan_subchunks cs (Some ff))
      else if chunk_id c = ''data''
      then (case fmt of
              None \<Rightarrow> Inl DataBeforeFmt
            | Some ff \<Rightarrow>
                if f_framesize ff = 0 then Inl DivisionByZero
                else Inr (fmt, Some (c, chunk_size c div f_framesize ff)))
      else scan_subchunks cs fmt)"

definition Wave_read :: "riff_file \<Rightarrow> error + wave_read" where
  "Wave_read file =
     (if chunk_id (file_chunk file) \<noteq> ''RIFF'' then Inl NotRIFF
      else (case chunk_read 4 (file_chunk file) of
              Inl e \<Rightarrow> Inl e
            | Inr (format, fc) \<Rightarrow>
                if format \<noteq> bytes_of_string ''WAVE'' then Inl NotWAVE
                else (case scan_subchunks (subchunks file) None of
                        Inl e \<Rightarrow> Inl e
                      | Inr (Some ff, Some (d, n)) \<Rightarrow>
                          Inr \<lparr>r_framesize = f_framesize ff, r_file_chunk = fc,
                               r_data_chunk = d,
                               r_comptype = ''NONE'', r_compname = ''not compressed'',
                               r_nframes = n, r_nchannels = f_nchannels ff,
                               r_framerate = f_framerate ff,
                               r_sampwidth = f_sampwidth ff\<rparr>
                      | Inr _ \<Rightarrow> Inl ChunkMissing)))"

definition readframes :: "nat \<Rightarrow> wave_read \<Rightarrow> error + (byte list \<times> wave_read)" where
  "readframes nframes' f =
     (case chunk_read (nframes' * r_framesize f) (r_data_chunk f) of
        Inl e \<Rightarrow> Inl e
      | Inr (buffer, d) \<Rightarrow> Inr (buffer, f\<lparr>r_data_chunk := d\<rparr>))"

subsection \<open>Decoding\<close>

text \<open>
  The sample of one channel: \<^verbatim>\<open>memcpy\<close> puts the \<open>sampwidth\<close> bytes into the low
  bytes of an \<^verbatim>\<open>int32_t\<close> that was 0, then the width decides the sign correction.
\<close>

definition sign_correct :: "nat \<Rightarrow> 32 word \<Rightarrow> 32 word" where
  "sign_correct sampwidth sample =
     (if sampwidth = 1 then sample - 0x80
      else if sampwidth = 2 then scast (ucast sample :: 16 word)
      else if sampwidth = 3 then signed_drop_bit 8 (push_bit 8 sample)
      else sample)"

definition channel_sample :: "nat \<Rightarrow> byte list \<Rightarrow> nat \<Rightarrow> 32 word" where
  "channel_sample sampwidth readbuf j =
     sign_correct sampwidth (of_nat (le_nat (take sampwidth (drop (j * sampwidth) readbuf))))"

text \<open>The loop over the channels of one frame, from channel \<open>j\<close> on.\<close>

function decode_channels :: "nat \<Rightarrow> nat \<Rightarrow> real \<Rightarrow> byte list \<Rightarrow> nat \<Rightarrow> real \<Rightarrow> error + real" where
  "decode_channels sampwidth nchannels scale readbuf j acc =
     (if j < nchannels
      then (if sampwidth > 4 then Inl BufferOverrun
            else decode_channels sampwidth nchannels scale readbuf (j + 1)
                   (f32 (acc + f32 (f32 (of_int (sint (channel_sample sampwidth readbuf j))) * scale))))
      else Inr acc)"
  by pat_completeness auto
termination
  by (relation "measure (\<lambda>(sampwidth, nchannels, scale, readbuf, j, acc). nchannels - j)") auto

declare decode_channels.simps [simp del]

text \<open>The loop over the frames: \<open>n\<close> frames are still to be read.\<close>

fun decode_frames :: "real \<Rightarrow> nat \<Rightarrow> wave_read \<Rightarrow> error + (real list \<times> wave_read)" where
  "decode_frames scale 0 f = Inr ([], f)"
| "decode_frames scale (Suc n) f =
     (case readframes 1 f of
        Inl e \<Rightarrow> Inl e
      | Inr (readbuf, f1) \<Rightarrow>
          (case decode_channels (r_sampwidth f) (r_nchannels f) scale readbuf 0 0 of
             Inl e \<Rightarrow> Inl e
           | Inr acc \<Rightarrow>
               (case decode_frames scale n f1 of
                  Inl e \<Rightarrow> Inl e
                | Inr (output, f2) \<Rightarrow> Inr (acc # output, f2))))"

text \<open>
  \<open>readwave\<close>: the argument is the file as the chunk accessor presents it, \<open>None\<close> when
  the file cannot be opened; the result is the returned flag with the final values of the
  reference parameters \<^verbatim>\<open>output\<close> and \<^verbatim>\<open>Fs\<close>.
\<close>

definition readwave :: "riff_file option \<Rightarrow> error + (bool \<times> real list \<times> real)" where
  "readwave file =
     (case file of
        None \<Rightarrow> Inr (False, [], 0)
      | Some file' \<Rightarrow>
          (case Wave_read file' of
             Inl e \<Rightarrow> Inl e
           | Inr f \<Rightarrow>
               (let Fs = f32 (real (r_framerate f));
                    scale = f32 (1 / f32 (real (r_nchannels f)))
                in case decode_frames scale (r_nframes f) f of
                     Inl e \<Rightarrow> Inl e
                   | Inr (output, f') \<Rightarrow> Inr (True, output, Fs))))"

section \<open>The writer\<close>

record wave_write =
  headerwritten :: bool
  w_file_chunk :: chunk
  w_subchunks :: "chunk list"
  w_nframes :: nat
  w_nchannels :: nat
  w_framerate :: nat
  w_sampwidth :: nat
  w_comptype :: string
  w_compname :: string

text \<open>
  A method of the writer either returns normally with the new state of the object, or throws;
  the object outlives the throw, so the error carries the state the object is left in.
  \<^verbatim>\<open>size_t\<close> values are natural numbers (no size here comes near \<open>2 ^ 64\<close>, the
  buffers they measure being in memory); the narrowing conversions to the header's 16 and 32
  bit fields are written out where they happen.
\<close>

type_synonym 'a wr = "(error \<times> wave_write) + 'a"

definition Wave_write :: "wave_write" where
  "Wave_write =
     \<lparr>headerwritten = False,
      w_file_chunk = chunk_write (bytes_of_string ''WAVE'') (new_chunk ''RIFF''),
      w_subchunks = [],
      w_nframes = 0, w_nchannels = 0, w_framerate = 0, w_sampwidth = 0,
      w_comptype = ''NONE'', w_compname = ''not compressed''\<rparr>"

definition setnchannels :: "nat \<Rightarrow> wave_write \<Rightarrow> wave_write wr" where
  "setnchannels nchannels' s =
     (if headerwritten s then Inl (ParamsLocked, s)
      else if nchannels' < 1 then Inl (BadChannels, s)
      else Inr (s\<lparr>w_nchannels := nchannels'\<rparr>))"

definition setsampwidth :: "nat \<Rightarrow> wave_write \<Rightarrow> wave_write wr" where
  "setsampwidth sampwidth' s =
     (if headerwritten s then Inl (ParamsLocked, s)
      else if sampwidth' < 1 \<or> sampwidth' > 4 then Inl (BadSampleWidth, s)
      else Inr (s\<lparr>w_sampwidth := sampwidth'\<rparr>))"

definition setframerate :: "nat \<Rightarrow> wave_write \<Rightarrow> wave_write wr" where
  "setframerate framerate' s =
     (if headerwritten s then Inl (ParamsLocked, s)
      else if framerate' \<le> 0 then Inl (BadFrameRate, s)
      else Inr (s\<lparr>w_framerate := framerate'\<rparr>))"

text \<open>
  \<^verbatim>\<open>_ensure_header_written\<close>.  The 16 bytes of the \<^verbatim>\<open>fmt\<close> chunk are the fields of
  \<^verbatim>\<open>WaveFormatEx\<close>, each narrowed to its width.  The \<^verbatim>\<open>data\<close> chunk is the child added
  last; \<^verbatim>\<open>data_chunk\<close> points to it.
\<close>

definition WaveFormatEx_bytes :: "nat \<Rightarrow> nat \<Rightarrow> nat \<Rightarrow> byte list" where
  "WaveFormatEx_bytes nchannels framerate sampwidth =
     le_bytes 2 WAVE_FORMAT_PCM
     @ le_bytes 2 nchannels
     @ le_bytes 4 framerate
     @ le_bytes 4 (nchannels * framerate * sampwidth)
     @ le_bytes 2 (nchannels * sampwidth)
     @ le_bytes 2 (sampwidth * 8)"

definition ensure_header_written :: "wave_write \<Rightarrow> wave_write wr" where
  "ensure_header_written s =
     (if \<not> headerwritten s
      then (if w_nchannels s = 0 then Inl (ChannelsNotSpecified, s)
            else if w_sampwidth s = 0 then Inl (SampleWidthNotSpecified, s)
            else if w_framerate s = 0 then Inl (RateNotSpecified, s)
            else (let fmt = WaveFormatEx_bytes (w_nchannels s) (w_framerate s) (w_sampwidth s);
                      fmt_chunk = chunk_write fmt (new_chunk ''fmt '')
                  in Inr (s\<lparr>w_subchunks := w_subchunks s @ [fmt_chunk, new_chunk ''data''],
                            headerwritten := True\<rparr>)))
      else Inr s)"

definition data_chunk_write :: "byte list \<Rightarrow> wave_write \<Rightarrow> wave_write" where
  "data_chunk_write bs s =
     s\<lparr>w_subchunks := butlast (w_subchunks s) @ [chunk_write bs (last (w_subchunks s))]\<rparr>"

definition writeframes :: "byte list \<Rightarrow> nat \<Rightarrow> wave_write \<Rightarrow> wave_write wr" where
  "writeframes data nframes' s =
     (let bytes = nframes' * w_sampwidth s * w_nchannels s
      in case ensure_header_written s of
           Inl e \<Rightarrow> Inl e
         | Inr s1 \<Rightarrow>
             if bytes > length data then Inl (BufferOverrun, s1)
             else Inr (data_chunk_write (take bytes data) s1))"

definition close_write :: "wave_write \<Rightarrow> wave_write wr" where
  "close_write s = ensure_header_written s"

text \<open>
  \<^verbatim>\<open>~Wave_write\<close> calls \<^verbatim>\<open>close\<close>.  A destructor must not throw: when
  \<^verbatim>\<open>close\<close> throws in it, at the end of the scope or while the stack is unwound for an
  exception \<open>e\<close> of a method, the program is terminated; otherwise the unwinding goes on
  with \<open>e\<close>.
\<close>

definition destroy_write :: "wave_write \<Rightarrow> error + wave_write" where
  "destroy_write s = (case close_write s of Inl (e, s') \<Rightarrow> Inl Terminated | Inr s' \<Rightarrow> Inr s')"

definition unwind_write :: "error \<times> wave_write \<Rightarrow> error" where
  "unwind_write es = (case destroy_write (snd es) of Inl t \<Rightarrow> t | Inr s' \<Rightarrow> fst es)"

definition written_file :: "wave_write \<Rightarrow> riff_file" where
  "written_file s = \<lparr>file_chunk = w_file_chunk s, subchunks = w_subchunks s\<rparr>"

subsection \<open>Encoding\<close>

text \<open>
  One pass of the quantization loop: the bytes stored for one input value.  The product and
  the sum are single precision operations; \<^verbatim>\<open>>> 1\<close> on the \<^verbatim>\<open>int32_t\<close> is the
  arithmetic shift; \<^verbatim>\<open>memcpy\<close> takes the low \<open>sampwidth\<close> bytes of the sample and
  reads past it when \<open>sampwidth\<close> exceeds 4.
\<close>

definition quantize :: "nat \<Rightarrow> real \<Rightarrow> real \<Rightarrow> error + byte list" where
  "quantize sampwidth scale x =
     (let clipped_input = (if x > 1 then 1 else x);
          clipped_input = (if clipped_input < - 1 then - 1 else clipped_input)
      in case f32_to_int32 (f32 (f32 (clipped_input * scale) + 1)) of
           Inl e \<Rightarrow> Inl e
         | Inr t \<Rightarrow>
             (let sample = signed_drop_bit 1 t;
                  sample = (if sampwidth = 1 then sample + 0x80 else sample)
              in if sampwidth > 4 then Inl BufferOverrun
                 else Inr (le_bytes sampwidth (unat sample))))"

fun quantize_all :: "nat \<Rightarrow> real \<Rightarrow> real list \<Rightarrow> error + byte list" where
  "quantize_all sampwidth scale [] = Inr []"
| "quantize_all sampwidth scale (x # xs) =
     (case quantize sampwidth scale x of
        Inl e \<Rightarrow> Inl e
      | Inr bs \<Rightarrow>
          (case quantize_all sampwidth scale xs of
             Inl e \<Rightarrow> Inl e
           | Inr rest \<Rightarrow> Inr (bs @ rest)))"

text \<open>
  \<open>writewave\<close>: the first argument says whether the file could be opened; the result is
  the returned flag and the file as written, \<open>None\<close> when nothing was written.  An error
  is the way in which the call fails to return normally: the exception that leaves it, or the
  crash.  The local \<^verbatim>\<open>Wave_write f\<close> is destroyed when an exception passes through
  the function and at the end of its scope.  For an empty input
  \<^verbatim>\<open>&quantized_input[0]\<close> is taken as the start of an empty buffer, of which
  \<^verbatim>\<open>writeframes\<close> then writes no byte.
\<close>

definition writewave ::
  "bool \<Rightarrow> real list \<Rightarrow> nat \<Rightarrow> nat \<Rightarrow> nat \<Rightarrow> error + (bool \<times> riff_file option)" where
  "writewave is_open input Fs sampwidth nchannels =
     (if \<not> is_open then Inr (False, None)
      else if nchannels = 0 then Inl DivisionByZero
      else (let nframes = length input div nchannels
            in if 8 * sampwidth \<ge> 64 then Inl ShiftTooWide
               else (let scale = f32 (2 ^ (8 * sampwidth))
                     in case quantize_all sampwidth scale input of
                          Inl e \<Rightarrow> Inl e
                        | Inr quantized_input \<Rightarrow>
                            (case setnchannels nchannels Wave_write of
                               Inl es \<Rightarrow> Inl (unwind_write es)
                             | Inr f1 \<Rightarrow>
                            (case setsampwidth sampwidth f1 of
                               Inl es \<Rightarrow> Inl (unwind_write es)
                             | Inr f2 \<Rightarrow>
                            (case setframerate Fs f2 of
                               Inl es \<Rightarrow> Inl (unwind_write es)
                             | Inr f3 \<Rightarrow>
                            (case writeframes quantized_input nframes f3 of
                               Inl es \<Rightarrow> Inl (unwind_write es)
                             | Inr f4 \<Rightarrow>
                            (case close_write f4 of
                               Inl es \<Rightarrow> Inl (unwind_write es)
                             | Inr f5 \<Rightarrow>
                            (case destroy_write f5 of
                               Inl t \<Rightarrow> Inl t
                             | Inr f6 \<Rightarrow> Inr (True, Some (written_file f6)))))))))))"

section \<open>Notions used in the statements, and example files\<close>

text \<open>
  The container that a write session leaves when it has been given the parameters and has
  written the payload: the \<^verbatim>\<open>RIFF\<close> chunk with the \<^verbatim>\<open>WAVE\<close> marker, the
  \<^verbatim>\<open>fmt\<close> chunk and the \<^verbatim>\<open>data\<close> chunk.
\<close>

definition wave_file :: "nat \<Rightarrow> nat \<Rightarrow> nat \<Rightarrow> byte list \<Rightarrow> riff_file" where
  "wave_file nchannels framerate sampwidth payload =
     \<lparr>file_chunk = \<lparr>chunk_id = ''RIFF'', chunk_data = bytes_of_string ''WAVE'', chunk_pos = 0\<rparr>,
      subchunks =
        [\<lparr>chunk_id = ''fmt '', chunk_data = WaveFormatEx_bytes nchannels framerate sampwidth,
          chunk_pos = 0\<rparr>,
         \<lparr>chunk_id = ''data'', chunk_data = payload, chunk_pos = 0\<rparr>]\<rparr>"

definition example_riff :: chunk where
  "example_riff = \<lparr>chunk_id = ''RIFF'', chunk_data = bytes_of_string ''WAVE'', chunk_pos = 0\<rparr>"

text \<open>Mono, 8000 frames per second, 16 bits per sample.\<close>

definition example_fmt :: chunk where
  "example_fmt =
     \<lparr>chunk_id = ''fmt '',
      chunk_data = [1, 0, 1, 0, 0x40, 0x1F, 0, 0, 0x80, 0x3E, 0, 0, 2, 0, 16, 0],
      chunk_pos = 0\<rparr>"

text \<open>The same with format tag 2 (a compressed format) and 4 bits per sample.\<close>

definition example_fmt_adpcm :: chunk where
  "example_fmt_adpcm =
     \<lparr>chunk_id = ''fmt '',
      chunk_data = [2, 0, 1, 0, 0x40, 0x1F, 0, 0, 0xA0, 0x0F, 0, 0, 0, 1, 4, 0],
      chunk_pos = 0\<rparr>"

text \<open>Five bytes of payload: two frames of two bytes and one byte more.\<close>

definition example_data :: chunk where
  "example_data = \<lparr>chunk_id = ''data'', chunk_data = [0, 0x40, 0, 0xC0, 7], chunk_pos = 0\<rparr>"



text \<open>
  The layout that the specification describes for the write path, for comparison: the bytes
  of each quantized value, repeated once per channel.
\<close>

definition replicate_channels :: "nat \<Rightarrow> byte list list \<Rightarrow> byte list" where
  "replicate_channels nchannels samples = concat (map (\<lambda>bs. concat (replicate nchannels bs)) samples)"

text \<open>
  The value that the \<open>sampwidth\<close> bytes of a sample denote in the file format, as the
  specification gives it, for comparison with the sign correction of the decoder: unsigned
  with the bias 0x80 for width 1, two's complement for the other widths.  The argument is the
  unsigned little-endian value of the bytes.
\<close>

definition pcm_value :: "nat \<Rightarrow> nat \<Rightarrow> int" where
  "pcm_value sampwidth u =
     (if sampwidth = 1 then int u - 0x80
      else if u < 2 ^ (8 * sampwidth - 1) then int u
      else int u - 2 ^ (8 * sampwidth))"

section \<open>Properties\<close>

subsection \<open>Rounding to the nearest integer, ties to even\<close>

lemma round_even_of_int [simp]: "round_even (of_int n) = n"
  by (simp add: round_even_def)

lemma round_even_floor: "\<lfloor>x\<rfloor> \<le> round_even x" "round_even x \<le> \<lfloor>x\<rfloor> + 1"
  by (simp_all add: round_even_def Let_def)

lemma round_even_mono: 
  assumes "x \<le> y" shows "round_even x \<le> round_even y"
proof (cases "\<lfloor>x\<rfloor> = \<lfloor>y\<rfloor>")
  case True
  with assms show ?thesis
    by (auto simp: round_even_def Let_def)
next
  case False
  with assms have "\<lfloor>x\<rfloor> + 1 \<le> \<lfloor>y\<rfloor>"
    using floor_mono [of x y] by linarith
  with round_even_floor(2) [of x] round_even_floor(1) [of y] show ?thesis
    by linarith
qed

lemma round_even_minus: "round_even (- x) = - round_even x"
proof (cases "x \<in> \<int>")
  case True
  then obtain n where "x = of_int n" by (auto elim: Ints_cases)
  then show ?thesis by (simp flip: of_int_minus)
next
  case False
  then have ne: "x \<noteq> of_int \<lfloor>x\<rfloor>"
    by (metis Ints_of_int)
  then have fl: "\<lfloor>- x\<rfloor> = - \<lfloor>x\<rfloor> - 1"
    by (simp add: floor_minus ceiling_altdef) 
  have "of_int \<lfloor>x\<rfloor> \<le> x" "x < of_int \<lfloor>x\<rfloor> + 1" by linarith+
  with ne show ?thesis
    unfolding round_even_def Let_def fl
    by auto
qed

lemma round_even_close: "\<bar>of_int (round_even x) - x\<bar> \<le> 1 / 2"
proof -
  have "of_int \<lfloor>x\<rfloor> \<le> x" "x < of_int \<lfloor>x\<rfloor> + 1" by linarith+
  then show ?thesis
    unfolding round_even_def Let_def by auto
qed

subsection \<open>Rounding to single precision\<close>

lemma powr2_powi: "(2::real) powr of_int j = 2 powi j"
  by (simp add: powr_real_of_int')

lemma f32_exponent_bounds:
  assumes "x \<noteq> 0"
  shows "2 powi f32_exponent x \<le> \<bar>x\<bar>" and "\<bar>x\<bar> < 2 powi (f32_exponent x + 1)"
proof -
  have "0 < \<bar>x\<bar>" using assms by simp
  then have "2 powr of_int (f32_exponent x) \<le> \<bar>x\<bar> \<and> \<bar>x\<bar> < 2 powr of_int (f32_exponent x + 1)"
    using floor_log_eq_powr_iff [of "\<bar>x\<bar>" 2 "f32_exponent x"]
    unfolding f32_exponent_def by fastforce
  then show "2 powi f32_exponent x \<le> \<bar>x\<bar>" and "\<bar>x\<bar> < 2 powi (f32_exponent x + 1)"
    unfolding powr2_powi by blast+
qed

lemma f32_exponent_eq:
  assumes "2 powi k \<le> \<bar>x\<bar>" and "\<bar>x\<bar> < 2 powi (k + 1)"
  shows "f32_exponent x = k"
proof -
  have "(0::real) < 2 powi k" by simp
  with assms have "0 < \<bar>x\<bar>" by linarith
  moreover have "2 powr of_int k \<le> \<bar>x\<bar> \<and> \<bar>x\<bar> < 2 powr of_int (k + 1)"
    unfolding powr2_powi using assms by blast
  ultimately show ?thesis
    using floor_log_eq_powr_iff [of "\<bar>x\<bar>" 2 k]
    unfolding f32_exponent_def by fastforce
qed

lemma f32_exponent_mono:
  assumes "x \<noteq> 0" and "\<bar>x\<bar> \<le> \<bar>y\<bar>"
  shows "f32_exponent x \<le> f32_exponent y"
proof -
  have "0 < \<bar>x\<bar>" using assms by simp
  then have "log 2 \<bar>x\<bar> \<le> log 2 \<bar>y\<bar>" using assms by simp
  then show ?thesis unfolding f32_exponent_def by (rule floor_mono)
qed

lemma f32_exponent_scale:
  assumes "x \<noteq> 0"
  shows "f32_exponent (x * 2 powi j) = f32_exponent x + j"
proof (rule f32_exponent_eq)
  have a: "\<bar>x * 2 powi j\<bar> = \<bar>x\<bar> * 2 powi j" by (simp add: abs_mult)
  show "2 powi (f32_exponent x + j) \<le> \<bar>x * 2 powi j\<bar>"
    using f32_exponent_bounds(1) [OF assms] by (simp add: a power_int_add)
  have "\<bar>x\<bar> * 2 powi j < 2 powi (f32_exponent x + 1) * 2 powi j"
    using f32_exponent_bounds(2) [OF assms] by simp
  then show "\<bar>x * 2 powi j\<bar> < 2 powi (f32_exponent x + j + 1)"
    by (simp add: a power_int_add algebra_simps)
qed

lemma f32_exponent_minus [simp]: "f32_exponent (- x) = f32_exponent x"
  by (simp add: f32_exponent_def)

lemma f32_minus: "f32 (- x) = - f32 x"
  by (simp add: f32_def Let_def round_even_minus)

lemma f32_scale: "f32 (x * 2 powi j) = f32 x * 2 powi j"
proof (cases "x = 0")
  case True then show ?thesis by (simp add: f32_def)
next
  case False
  have "x * 2 powi j / 2 powi (f32_exponent x + j - 23) = x / 2 powi (f32_exponent x - 23)"
    by (simp add: power_int_add power_int_diff field_simps)
  moreover have "2 powi (f32_exponent x + j - 23) = 2 powi (f32_exponent x - 23) * (2::real) powi j"
    by (simp add: power_int_add power_int_diff field_simps)
  ultimately show ?thesis using False
    by (simp add: f32_def Let_def f32_exponent_scale)
qed

lemma f32_zero [simp]: "f32 0 = 0"
  by (simp add: f32_def)

text \<open>The significand lies between \<open>2 ^ 23\<close> and \<open>2 ^ 24\<close>.\<close>

lemma significand_bounds:
  assumes "x \<noteq> 0"
  shows "2 ^ 23 \<le> \<bar>x\<bar> / 2 powi (f32_exponent x - 23)" 
    and "\<bar>x\<bar> / 2 powi (f32_exponent x - 23) < 2 ^ 24"
proof -
  let ?k = "f32_exponent x"
  have u: "(2::real) powi (?k - 23) = 2 powi ?k / 2 ^ 23"
    by (simp add: power_int_diff)
  have "2 powi ?k \<le> \<bar>x\<bar>" using f32_exponent_bounds(1) [OF assms] .
  then show "2 ^ 23 \<le> \<bar>x\<bar> / 2 powi (?k - 23)"
    by (simp add: u field_simps)
  have "\<bar>x\<bar> < 2 powi (?k + 1)" using f32_exponent_bounds(2) [OF assms] .
  then have "\<bar>x\<bar> < 2 * 2 powi ?k" by (simp add: power_int_add)
  then show "\<bar>x\<bar> / 2 powi (?k - 23) < 2 ^ 24"
    by (simp add: u field_simps)
qed

lemma f32_exactI:
  assumes "x / 2 powi (f32_exponent x - 23) = of_int N"
  shows "f32 x = x"
proof (cases "x = 0")
  case True then show ?thesis by simp
next
  case False
  have "of_int N * 2 powi (f32_exponent x - 23) = x"
    using assms [symmetric] by simp
  then show ?thesis using False by (simp add: f32_def Let_def assms)
qed

lemma f32_of_int:
  assumes "\<bar>n\<bar> \<le> 2 ^ 24"
  shows "f32 (of_int n) = of_int n"
proof (cases "n = 0")
  case True then show ?thesis by simp
next
  case False
  let ?x = "of_int n :: real"
  let ?k = "f32_exponent ?x"
  have x: "?x \<noteq> 0" using False by simp
  have lo: "2 powi ?k \<le> \<bar>?x\<bar>" and hi: "\<bar>?x\<bar> < 2 powi (?k + 1)"
    using f32_exponent_bounds [OF x] by blast+
  have n24: "\<bar>?x\<bar> \<le> 2 ^ 24" 
    using assms by (metis of_int_abs of_int_le_numeral_power_cancel_iff)
  have "(2::real) powi ?k \<le> 2 powi 24" using lo n24 by simp
  then have k24: "?k \<le> 24"
    using power_int_le_imp_le_exp [of "2::real" ?k 24] by simp
  have "1 \<le> \<bar>n\<bar>" using False by linarith
  then have "(of_int 1 :: real) \<le> of_int \<bar>n\<bar>" by (simp only: of_int_le_iff)
  then have "1 \<le> \<bar>?x\<bar>" by simp
  then have one: "(2::real) powi 0 < 2 powi (?k + 1)" using hi by simp
  have k0: "0 \<le> ?k"
  proof (rule ccontr)
    assume "\<not> 0 \<le> ?k"
    then have "?k + 1 \<le> 0" by linarith
    then have "(2::real) powi (?k + 1) \<le> 2 powi 0"
      by (intro power_int_increasing) simp_all
    with one show False by linarith
  qed
  show ?thesis
  proof (cases "?k = 24")
    case True
    then have "2 ^ 24 \<le> \<bar>?x\<bar>" using lo by simp
    with n24 have "\<bar>?x\<bar> = 2 ^ 24" by linarith
    then have "\<bar>n\<bar> = 2 ^ 24"
      by (metis of_int_abs of_int_eq_numeral_power_cancel_iff)
    then have "n = 2 ^ 24 \<or> n = - (2 ^ 24)" by linarith
    then have "?x / 2 powi (?k - 23) = of_int (n div 2)"
      unfolding True by auto
    then show ?thesis by (rule f32_exactI)
  next
    case False
    with k24 k0 have r: "0 \<le> 23 - ?k" by linarith
    have "?x / 2 powi (?k - 23) = ?x * 2 powi (23 - ?k)"
      by (simp add: power_int_diff)
    also have "\<dots> = ?x * 2 ^ nat (23 - ?k)"
      using r by (simp add: power_int_def)
    also have "\<dots> = of_int (n * 2 ^ nat (23 - ?k))" by simp
    finally show ?thesis by (rule f32_exactI)
  qed
qed

lemma f32_nonneg: "0 \<le> x \<Longrightarrow> 0 \<le> f32 x"
proof -
  assume a: "0 \<le> x"
  have "of_int 0 \<le> x / 2 powi (f32_exponent x - 23)" using a by simp
  then have "round_even (of_int 0) \<le> round_even (x / 2 powi (f32_exponent x - 23))"
    by (rule round_even_mono)
  then have "0 \<le> round_even (x / 2 powi (f32_exponent x - 23))"
    by (simp only: round_even_of_int)
  then show ?thesis by (simp add: f32_def Let_def)
qed

lemma f32_pos_bounds:
  assumes "0 < x"
  shows "2 powi f32_exponent x \<le> f32 x" and "f32 x \<le> 2 powi (f32_exponent x + 1)"
proof -
  let ?u = "(2::real) powi (f32_exponent x - 23)"
  have x: "x \<noteq> 0" "\<bar>x\<bar> = x" using assms by simp_all
  have u: "2 powi f32_exponent x = 2 ^ 23 * ?u" "2 powi (f32_exponent x + 1) = 2 ^ 24 * ?u"
    by (simp_all add: power_int_diff power_int_add)
  have "of_int (2 ^ 23) \<le> x / ?u" using significand_bounds(1) [OF x(1)] x(2) by simp
  then have "round_even (of_int (2 ^ 23)) \<le> round_even (x / ?u)" by (rule round_even_mono)
  then have "2 ^ 23 \<le> round_even (x / ?u)" by (simp only: round_even_of_int)
  then have "(of_int (2 ^ 23) :: real) \<le> of_int (round_even (x / ?u))"
    by (simp only: of_int_le_iff)
  then have "(2 ^ 23 :: real) \<le> of_int (round_even (x / ?u))" by simp
  then have "2 ^ 23 * ?u \<le> of_int (round_even (x / ?u)) * ?u"
    by (simp add: mult_right_mono)
  then show "2 powi f32_exponent x \<le> f32 x"
    using x by (simp only: u f32_def Let_def if_False)
  have "x / ?u \<le> of_int (2 ^ 24)" using significand_bounds(2) [OF x(1)] x(2) by simp
  then have "round_even (x / ?u) \<le> round_even (of_int (2 ^ 24))" by (rule round_even_mono)
  then have "round_even (x / ?u) \<le> 2 ^ 24" by (simp only: round_even_of_int)
  then have "of_int (round_even (x / ?u)) \<le> (of_int (2 ^ 24) :: real)"
    by (simp only: of_int_le_iff)
  then have "of_int (round_even (x / ?u)) \<le> (2 ^ 24 :: real)" by simp
  then have "of_int (round_even (x / ?u)) * ?u \<le> 2 ^ 24 * ?u"
    by (simp add: mult_right_mono)
  then show "f32 x \<le> 2 powi (f32_exponent x + 1)"
    using x by (simp only: u f32_def Let_def if_False)
qed

lemma f32_mono_pos:
  assumes "0 < x" and "x \<le> y"
  shows "f32 x \<le> f32 y"
proof -
  have y: "0 < y" using assms by linarith
  have xy: "x \<noteq> 0" "y \<noteq> 0" using assms y by simp_all
  have "f32_exponent x \<le> f32_exponent y"
    using assms by (intro f32_exponent_mono) simp_all
  then consider "f32_exponent x = f32_exponent y" | "f32_exponent x + 1 \<le> f32_exponent y"
    by linarith
  then show ?thesis
  proof cases
    case 1
    let ?u = "(2::real) powi (f32_exponent y - 23)"
    have "x / ?u \<le> y / ?u" using assms by (simp add: divide_right_mono)
    then have "round_even (x / ?u) \<le> round_even (y / ?u)" by (rule round_even_mono)
    then have "of_int (round_even (x / ?u)) * ?u \<le> of_int (round_even (y / ?u)) * ?u"
      by (simp add: mult_right_mono)
    then show ?thesis using xy by (simp add: f32_def Let_def 1)
  next
    case 2
    have "f32 x \<le> 2 powi (f32_exponent x + 1)" using f32_pos_bounds(2) [OF assms(1)] .
    also have "\<dots> \<le> 2 powi f32_exponent y" using 2 by (intro power_int_increasing) simp_all
    also have "\<dots> \<le> f32 y" using f32_pos_bounds(1) [OF y] .
    finally show ?thesis .
  qed
qed

lemma f32_mono:
  assumes "x \<le> y"
  shows "f32 x \<le> f32 y"
proof -
  consider "0 < x" | "x \<le> 0 \<and> 0 \<le> y" | "y < 0" using assms by linarith
  then show ?thesis
  proof cases
    case 1 then show ?thesis using assms by (rule f32_mono_pos)
  next
    case 2
    then have "0 \<le> f32 (- x)" "0 \<le> f32 y" by (simp_all add: f32_nonneg)
    then show ?thesis by (simp add: f32_minus)
  next
    case 3
    then have "f32 (- y) \<le> f32 (- x)" using assms by (intro f32_mono_pos) simp_all
    then show ?thesis by (simp add: f32_minus)
  qed
qed

lemma f32_numeral: "numeral k \<le> (16777216::int) \<Longrightarrow> f32 (numeral k) = numeral k"
  using f32_of_int [of "numeral k"] by simp

lemma f32_neg_numeral: "numeral k \<le> (16777216::int) \<Longrightarrow> f32 (- numeral k) = - numeral k"
  using f32_of_int [of "- numeral k"] by simp

lemma f32_one [simp]: "f32 1 = 1"
  using f32_of_int [of 1] by simp

lemma f32_power2 [simp]: "f32 (2 ^ n) = 2 ^ n"
  using f32_scale [of 1 "int n"] by (simp add: power_int_def)

lemma f32_real: "n \<le> 2 ^ 24 \<Longrightarrow> f32 (real n) = real n"
  using f32_of_int [of "int n"] by simp 

lemma trunc_zero_of_int [simp]: "trunc_zero (of_int n) = n"
  by (simp add: trunc_zero_def)

lemma trunc_zero_numeral [simp]: "trunc_zero (numeral k) = numeral k" "trunc_zero (- numeral k) = - numeral k"
  using trunc_zero_of_int [of "numeral k"] trunc_zero_of_int [of "- numeral k"] by simp_all

lemma le_bytes_1: "le_bytes 1 v = [of_nat (v mod 256)]"
  by simp

lemma le_bytes_2: "le_bytes 2 v = [of_nat (v mod 256), of_nat (v div 256 mod 256)]"
  by (simp add: numeral_2_eq_2)

lemma le_bytes_3: "le_bytes 3 v = [of_nat (v mod 256), of_nat (v div 256 mod 256), of_nat (v div 256 div 256 mod 256)]"
  by (simp add: numeral_3_eq_3)

lemma le_bytes_4: "le_bytes 4 v = [of_nat (v mod 256), of_nat (v div 256 mod 256), of_nat (v div 256 div 256 mod 256), of_nat (v div 256 div 256 div 256 mod 256)]"
proof -
  have "(4::nat) = Suc (Suc (Suc (Suc 0)))" by simp
  then show ?thesis by (simp only: le_bytes.simps)
qed

lemmas le_bytes_num = le_bytes_1 le_bytes_2 le_bytes_3 le_bytes_4

lemma f32_half: "f32 (x / 2) = f32 x / 2"
  using f32_scale [of x "- 1"] by (simp add: power_int_minus)

lemma ceiling_neg_half: "\<lceil>- (1 / 2) :: real\<rceil> = 0"
  by (simp add: ceiling_eq_iff)

subsection \<open>Bytes and 32 bit samples\<close>

lemma le_nat_bound: "le_nat bs < 256 ^ length bs"
proof (induction bs)
  case Nil then show ?case by simp
next
  case (Cons b bs)
  have "unat b < 256" using unsigned_less [of b, where ?'a = nat] by simp
  with Cons show ?case by simp
qed

lemma sint32: "- (2 ^ 31) \<le> x \<Longrightarrow> x < 2 ^ 31 \<Longrightarrow> sint (word_of_int x :: 32 word) = x"
  by (simp add: sint_sbintrunc' signed_take_bit_int_eq_self)

lemma sint16: "- (2 ^ 15) \<le> x \<Longrightarrow> x < 2 ^ 15 \<Longrightarrow> sint (word_of_int x :: 16 word) = x"
  by (simp add: sint_sbintrunc' signed_take_bit_int_eq_self)

lemma sign_correct_1:
  assumes "u < 256"
  shows "sint (sign_correct 1 (of_nat u)) = int u - 128"
proof -
  have "sign_correct 1 (of_nat u) = (word_of_int (int u - 128) :: 32 word)"
    by (simp add: sign_correct_def)
  moreover have "sint (word_of_int (int u - 128) :: 32 word) = int u - 128"
    using assms by (intro sint32) simp_all
  ultimately show ?thesis by (simp only:)
qed

lemma sign_correct_4:
  assumes "u < 2 ^ 32"
  shows "sint (sign_correct 4 (of_nat u)) = (if u < 2 ^ 31 then int u else int u - 2 ^ 32)"
proof -
  let ?v = "if u < 2 ^ 31 then int u else int u - 2 ^ 32"
  have "(of_nat u :: 32 word) = word_of_int (int u - 2 ^ 32)"
    by simp
  then have "sign_correct 4 (of_nat u) = (word_of_int ?v :: 32 word)"
    by (simp add: sign_correct_def)
  moreover have "- (2 ^ 31) \<le> ?v" "?v < 2 ^ 31"
    using assms by (simp_all split: if_splits)
  then have "sint (word_of_int ?v :: 32 word) = ?v"
    by (rule sint32)
  ultimately show ?thesis by (simp only:)
qed

lemma sign_correct_2:
  assumes "u < 2 ^ 16"
  shows "sint (sign_correct 2 (of_nat u)) = (if u < 2 ^ 15 then int u else int u - 2 ^ 16)"
proof -
  let ?v = "if u < 2 ^ 15 then int u else int u - 2 ^ 16"
  have v: "- (2 ^ 15) \<le> ?v" "?v < 2 ^ 15"
    using assms by (simp_all split: if_splits)
  have v': "- (2 ^ 31) \<le> ?v" "?v < 2 ^ 31"
    using assms by (simp_all split: if_splits)
  have "(ucast (word_of_int (int u) :: 32 word) :: 16 word) = word_of_int (int u)"
    by (rule ucast_down_wi) (simp add: is_down)
  then have "(ucast (of_nat u :: 32 word) :: 16 word) = of_nat u"
    by simp
  also have "\<dots> = word_of_int ?v" by simp
  finally have "sign_correct 2 (of_nat u) = scast (word_of_int ?v :: 16 word)"
    by (simp add: sign_correct_def)
  moreover have "sint (word_of_int ?v :: 16 word) = ?v"
    using v by (rule sint16)
  ultimately have "sign_correct 2 (of_nat u) = (word_of_int ?v :: 32 word)"
    by (simp only: scast_eq)
  moreover have "sint (word_of_int ?v :: 32 word) = ?v"
    using v' by (rule sint32)
  ultimately show ?thesis by (simp only:)
qed

lemma sign_correct_3:
  assumes "u < 2 ^ 24"
  shows "sint (sign_correct 3 (of_nat u)) = (if u < 2 ^ 23 then int u else int u - 2 ^ 24)"
proof -
  let ?v = "if u < 2 ^ 23 then int u else int u - 2 ^ 24"
  have v: "- (2 ^ 31) \<le> ?v * 256" "?v * 256 < 2 ^ 31"
    using assms by (simp_all split: if_splits)
  have "push_bit 8 (of_nat u :: 32 word) = word_of_int (int u * 256)"
    by (simp add: push_bit_eq_mult)
  also have "\<dots> = word_of_int (?v * 256)" by simp
  finally have "sint (sign_correct 3 (of_nat u)) = drop_bit 8 (sint (word_of_int (?v * 256) :: 32 word))"
    by (simp add: sign_correct_def sint_signed_drop_bit_eq)
  also have "sint (word_of_int (?v * 256) :: 32 word) = ?v * 256"
    using v by (rule sint32)
  also have "drop_bit 8 (?v * 256) = ?v"
    by (simp add: drop_bit_eq_div)
  finally show ?thesis .
qed


subsection \<open>The setters of the writer\<close>

text \<open>
  C8.  Each of \<open>setnchannels\<close>, \<open>setsampwidth\<close> and \<open>setframerate\<close> throws the state
  error when the header has been written, leaving the session as it was; otherwise it throws
  a validation error exactly when its argument is outside its domain (channels at least 1,
  sample width from 1 to 4, frame rate above 0), again leaving the session as it was; and
  otherwise it stores the argument in the session and changes nothing else.
\<close>

theorem setters_state_and_validation:
  "(setnchannels n s =
      (if headerwritten s then Inl (ParamsLocked, s)
       else if \<not> 1 \<le> n then Inl (BadChannels, s)
       else Inr (s\<lparr>w_nchannels := n\<rparr>)))
   \<and> (setsampwidth n s =
      (if headerwritten s then Inl (ParamsLocked, s)
       else if n \<notin> {1..4} then Inl (BadSampleWidth, s)
       else Inr (s\<lparr>w_sampwidth := n\<rparr>)))
   \<and> (setframerate n s =
      (if headerwritten s then Inl (ParamsLocked, s)
       else if \<not> 0 < n then Inl (BadFrameRate, s)
       else Inr (s\<lparr>w_framerate := n\<rparr>)))
   \<and> error_class_of ParamsLocked = StateError
   \<and> error_class_of BadChannels = ValidationError
   \<and> error_class_of BadSampleWidth = ValidationError
   \<and> error_class_of BadFrameRate = ValidationError"
  by (auto simp: setnchannels_def setsampwidth_def setframerate_def)

subsection \<open>The reader's constructor\<close>

lemma scan_subchunks_no_fmt:
  "\<forall>c\<in>set pre. chunk_id c \<noteq> ''fmt '' \<Longrightarrow> chunk_id d = ''data'' \<Longrightarrow>
   scan_subchunks (pre @ d # post) None = Inl DataBeforeFmt"
  by (induction pre) auto

lemma scan_subchunks_append:
  "scan_subchunks pre fmt = Inr (fmt', None) \<Longrightarrow>
   scan_subchunks (pre @ rest) fmt = scan_subchunks rest fmt'"
  by (induction pre arbitrary: fmt) (auto split: sum.splits option.splits if_splits)

lemma ceiling_bits: "(n + 7) div 8 = nat \<lceil>real n / 8\<rceil>" for n :: nat
proof -
  have "\<lceil>real n / 8\<rceil> = \<lceil>of_int (int n) / (of_int 8 :: real)\<rceil>" by simp
  also have "\<dots> = - (- int n div 8)" by (simp only: ceiling_divide_eq_div)
  also have "\<dots> = (int n + 7) div 8" by presburger
  finally show ?thesis by (simp add: nat_div_distrib)
qed

lemmas read_simps = Wave_read_def read_fmt_chunk_def chunk_read_def bytes_of_string_def
  chunk_size_def readframes_def WAVE_FORMAT_PCM_def

lemma decode_channels_mono:
  "sampwidth \<le> 4 \<Longrightarrow>
   decode_channels sampwidth (Suc 0) scale readbuf 0 0 =
     Inr (f32 (0 + f32 (f32 (of_int (sint (channel_sample sampwidth readbuf 0))) * scale)))"
  by (subst decode_channels.simps, simp, subst decode_channels.simps, simp)

lemma decode_frames_numeral:
  "decode_frames scale (numeral k) f =
     (case readframes 1 f of
        Inl e \<Rightarrow> Inl e
      | Inr (readbuf, f1) \<Rightarrow>
          (case decode_channels (r_sampwidth f) (r_nchannels f) scale readbuf 0 0 of
             Inl e \<Rightarrow> Inl e
           | Inr acc \<Rightarrow>
               (case decode_frames scale (pred_numeral k) f1 of
                  Inl e \<Rightarrow> Inl e
                | Inr (outp, f2) \<Rightarrow> Inr (acc # outp, f2))))"
  by (simp add: numeral_eq_Suc)

lemmas decode_simps = readwave_def read_simps decode_frames_numeral decode_channels_mono
  channel_sample_def sign_correct_def f32_numeral f32_neg_numeral f32_real

text \<open>
  C6.  In a container that starts with the RIFF identifier and the WAVE marker, when a
  \<open>data\<close> sub-chunk comes with no \<open>fmt\<close> sub-chunk before it in file order, the
  construction of the reader throws "data chunk before fmt chunk", the order error, and so
  does \<open>readwave\<close>: there is no successful result.
\<close>

theorem data_before_fmt_is_order_error:
  assumes "chunk_id (file_chunk file) = ''RIFF''"
    and "chunk_read 4 (file_chunk file) = Inr (bytes_of_string ''WAVE'', fc)"
    and "subchunks file = pre @ d # post"
    and "chunk_id d = ''data''"
    and "\<forall>c\<in>set pre. chunk_id c \<noteq> ''fmt ''"
  shows "Wave_read file = Inl DataBeforeFmt \<and> error_class_of DataBeforeFmt = OrderError
    \<and> readwave (Some file) = Inl DataBeforeFmt"
  using assms by (simp add: Wave_read_def readwave_def scan_subchunks_no_fmt)

theorem data_before_fmt_witness:
  "chunk_id (file_chunk \<lparr>file_chunk = example_riff, subchunks = [example_data, example_fmt]\<rparr>) = ''RIFF''
   \<and> chunk_read 4 example_riff = Inr (bytes_of_string ''WAVE'', example_riff\<lparr>chunk_pos := 4\<rparr>)
   \<and> chunk_id example_data = ''data''
   \<and> Wave_read \<lparr>file_chunk = example_riff, subchunks = [example_data, example_fmt]\<rparr>
       = Inl DataBeforeFmt
   \<and> readwave (Some \<lparr>file_chunk = example_riff, subchunks = [example_data, example_fmt]\<rparr>)
       = Inl DataBeforeFmt"
proof -
  have a: "chunk_read 4 example_riff = Inr (bytes_of_string ''WAVE'', example_riff\<lparr>chunk_pos := 4\<rparr>)"
    by (simp add: chunk_read_def example_riff_def bytes_of_string_def)
  have b: "chunk_id example_data = ''data''" "chunk_id example_riff = ''RIFF''"
    by (simp_all add: example_data_def example_riff_def)
  show ?thesis
    using data_before_fmt_is_order_error
      [of "\<lparr>file_chunk = example_riff, subchunks = [example_data, example_fmt]\<rparr>"
          "example_riff\<lparr>chunk_pos := 4\<rparr>" "[]" example_data "[example_fmt]"]
      a b
    by simp
qed

text \<open>
  C7, as amended.  For a \<open>fmt\<close> chunk that holds its 14 byte header: when the format tag
  is not 1, \<open>read_fmt_chunk\<close> throws "unknown format", the unsupported format error, and
  when the scan of the constructor reaches the chunk (the sub-chunks before it were scanned
  without error and held no \<open>data\<close> chunk), the construction of the reader and
  \<open>readwave\<close> fail with that error, so that there is no output; when the tag is 1 and the
  two bytes of the bits per sample follow, the sample width is the ceiling of the bits
  divided by 8.
\<close>

theorem format_tag_decides:
  assumes "chunk_read 14 c = Inr (hdr, ca)"
  shows "(le_nat (take 2 hdr) \<noteq> 1 \<longrightarrow>
            read_fmt_chunk c = Inl UnknownFormat
            \<and> error_class_of UnknownFormat = UnsupportedFormatError
            \<and> (chunk_id (file_chunk container) = ''RIFF''
                \<and> chunk_read 4 (file_chunk container) = Inr (bytes_of_string ''WAVE'', fc)
                \<and> subchunks container = pre @ c # post \<and> chunk_id c = ''fmt ''
                \<and> scan_subchunks pre None = Inr (fmt, None)
               \<longrightarrow> Wave_read container = Inl UnknownFormat
                   \<and> readwave (Some container) = Inl UnknownFormat))
       \<and> (le_nat (take 2 hdr) = 1 \<and> chunk_read 2 ca = Inr (bits, cb) \<longrightarrow>
            (\<exists>ff. read_fmt_chunk c = Inr ff
               \<and> f_sampwidth ff = nat \<lceil>real (le_nat bits) / 8\<rceil>
               \<and> f_nchannels ff = le_nat (take 2 (drop 2 hdr))
               \<and> f_framerate ff = le_nat (take 4 (drop 4 hdr))
               \<and> f_framesize ff = f_nchannels ff * f_sampwidth ff))"
proof (intro conjI impI)
  assume tag: "le_nat (take 2 hdr) \<noteq> 1"
  then show r: "read_fmt_chunk c = Inl UnknownFormat"
    using assms by (simp add: read_fmt_chunk_def WAVE_FORMAT_PCM_def)
  show "error_class_of UnknownFormat = UnsupportedFormatError" by simp
  assume f: "chunk_id (file_chunk container) = ''RIFF''
      \<and> chunk_read 4 (file_chunk container) = Inr (bytes_of_string ''WAVE'', fc)
      \<and> subchunks container = pre @ c # post \<and> chunk_id c = ''fmt ''
      \<and> scan_subchunks pre None = Inr (fmt, None)"
  then have "scan_subchunks (subchunks container) None = Inl UnknownFormat"
    using r by (simp add: scan_subchunks_append)
  then show "Wave_read container = Inl UnknownFormat" using f by (simp add: Wave_read_def)
  then show "readwave (Some container) = Inl UnknownFormat" by (simp add: readwave_def)
next
  assume "le_nat (take 2 hdr) = 1 \<and> chunk_read 2 ca = Inr (bits, cb)"
  then show "\<exists>ff. read_fmt_chunk c = Inr ff
               \<and> f_sampwidth ff = nat \<lceil>real (le_nat bits) / 8\<rceil>
               \<and> f_nchannels ff = le_nat (take 2 (drop 2 hdr))
               \<and> f_framerate ff = le_nat (take 4 (drop 4 hdr))
               \<and> f_framesize ff = f_nchannels ff * f_sampwidth ff"
    using assms by (simp add: read_fmt_chunk_def WAVE_FORMAT_PCM_def ceiling_bits Let_def)
qed


theorem format_tag_decides_witness:
  "chunk_read 14 example_fmt_adpcm
     = Inr ([2, 0, 1, 0, 0x40, 0x1F, 0, 0, 0xA0, 0x0F, 0, 0, 0, 1], example_fmt_adpcm\<lparr>chunk_pos := 14\<rparr>)
   \<and> read_fmt_chunk example_fmt_adpcm = Inl UnknownFormat
   \<and> Wave_read \<lparr>file_chunk = example_riff, subchunks = [example_fmt_adpcm, example_data]\<rparr>
       = Inl UnknownFormat
   \<and> readwave (Some \<lparr>file_chunk = example_riff, subchunks = [example_fmt_adpcm, example_data]\<rparr>)
       = Inl UnknownFormat
   \<and> chunk_read 14 example_fmt
     = Inr ([1, 0, 1, 0, 0x40, 0x1F, 0, 0, 0x80, 0x3E, 0, 0, 2, 0], example_fmt\<lparr>chunk_pos := 14\<rparr>)
   \<and> (\<exists>ff. read_fmt_chunk example_fmt = Inr ff \<and> f_sampwidth ff = 2)"
proof -
  have a: "chunk_read 14 example_fmt_adpcm
     = Inr ([2, 0, 1, 0, 0x40, 0x1F, 0, 0, 0xA0, 0x0F, 0, 0, 0, 1], example_fmt_adpcm\<lparr>chunk_pos := 14\<rparr>)"
    by (simp add: chunk_read_def example_fmt_adpcm_def)
  have b: "chunk_read 14 example_fmt
     = Inr ([1, 0, 1, 0, 0x40, 0x1F, 0, 0, 0x80, 0x3E, 0, 0, 2, 0], example_fmt\<lparr>chunk_pos := 14\<rparr>)"
    by (simp add: chunk_read_def example_fmt_def)
  have c: "chunk_read 2 (example_fmt\<lparr>chunk_pos := 14\<rparr>) = Inr ([16, 0], example_fmt\<lparr>chunk_pos := 16\<rparr>)"
    by (simp add: chunk_read_def example_fmt_def)
  have d: "chunk_read 4 example_riff = Inr (bytes_of_string ''WAVE'', example_riff\<lparr>chunk_pos := 4\<rparr>)"
    "chunk_id example_riff = ''RIFF''" "chunk_id example_fmt_adpcm = ''fmt ''"
    by (simp_all add: chunk_read_def example_riff_def bytes_of_string_def example_fmt_adpcm_def)
  have e: "nat \<lceil>real (le_nat [16, 0 :: byte]) / 8\<rceil> = 2"
    by simp
  show ?thesis
    using format_tag_decides [OF a,
        where container = "\<lparr>file_chunk = example_riff, subchunks = [example_fmt_adpcm, example_data]\<rparr>"
          and fc = "example_riff\<lparr>chunk_pos := 4\<rparr>" and pre = "[]" and post = "[example_data]"
          and fmt = None]
      format_tag_decides [OF b, where bits = "[16, 0]" and cb = "example_fmt\<lparr>chunk_pos := 16\<rparr>"]
      a b c d e
    by auto
qed

text \<open>
  The scan stops at the first \<open>data\<close> chunk: a \<open>fmt\<close> chunk with format tag 2 that
  comes after it is never examined, the reader is constructed and \<open>readwave\<close> returns
  the decoded frames.  And a \<open>fmt\<close> chunk of two bytes, the tag 2, ends before its
  header does: the read of the header fails in the chunk accessor.
\<close>

theorem fmt_after_data_counterexample:
  "chunk_id example_fmt_adpcm = ''fmt ''
   \<and> le_nat (take 2 (chunk_data example_fmt_adpcm)) = 2
   \<and> read_fmt_chunk example_fmt_adpcm = Inl UnknownFormat
   \<and> Wave_read \<lparr>file_chunk = example_riff,
                 subchunks = [example_fmt, example_data, example_fmt_adpcm]\<rparr>
       = Inr \<lparr>r_framesize = 2, r_file_chunk = example_riff\<lparr>chunk_pos := 4\<rparr>,
              r_data_chunk = example_data, r_comptype = ''NONE'',
              r_compname = ''not compressed'', r_nframes = 2, r_nchannels = 1,
              r_framerate = 8000, r_sampwidth = 2\<rparr>
   \<and> readwave (Some \<lparr>file_chunk = example_riff,
                      subchunks = [example_fmt, example_data, example_fmt_adpcm]\<rparr>)
       = Inr (True, [16384, - 16384], 8000)
   \<and> read_fmt_chunk \<lparr>chunk_id = ''fmt '', chunk_data = [2, 0], chunk_pos = 0\<rparr>
       = Inl ChunkExhausted
   \<and> error_class_of ChunkExhausted \<noteq> UnsupportedFormatError"
  by (simp add: decode_simps example_riff_def example_fmt_def example_data_def
      example_fmt_adpcm_def)

subsection \<open>Files that cannot be opened\<close>

text \<open>
  C9.  When the file cannot be opened, \<open>readwave\<close> returns false, with the output
  sequence empty and the frame rate 0, and \<open>writewave\<close> returns false with nothing
  written.  Both are returned values, not errors.
\<close>

theorem open_failure_is_returned:
  "readwave None = Inr (False, [], 0)
   \<and> writewave False input Fs sampwidth nchannels = Inr (False, None)"
  by (simp add: readwave_def writewave_def)

subsection \<open>The division by the channel count\<close>

lemma quantize_error: "quantize w sc x = Inl e \<Longrightarrow> e = FloatToIntRange \<or> e = BufferOverrun"
  by (auto simp: quantize_def f32_to_int32_def Let_def split: sum.splits if_splits)

lemma quantize_all_error:
  "quantize_all w sc xs = Inl e \<Longrightarrow> e = FloatToIntRange \<or> e = BufferOverrun"
  by (induction xs arbitrary: e) (auto split: sum.splits dest: quantize_error)

lemma ensure_header_written_error:
  "ensure_header_written s = Inl (e, s') \<Longrightarrow> error_class_of e = ValidationError"
  by (auto simp: ensure_header_written_def Let_def split: if_splits)

lemma unwind_write_cases: "unwind_write (e, s) = e \<or> unwind_write (e, s) = Terminated"
  by (auto simp: unwind_write_def destroy_write_def split: sum.splits)

lemma unwind_write_division:
  "unwind_write (e, s) = DivisionByZero \<Longrightarrow> e = DivisionByZero"
  using unwind_write_cases [of e s] by auto

text \<open>
  A setter that throws inside \<open>writewave\<close> leaves a session that cannot be closed: the
  destructor throws in its turn and the call ends in \<^verbatim>\<open>std::terminate\<close>.
\<close>

lemma setter_failure_terminates:
  "writewave True [] 8000 0 1 = Inl Terminated"
  "writewave True [] 8000 5 1 = Inl Terminated"
  "writewave True [] 0 2 1 = Inl Terminated"
  by (simp_all add: writewave_def setnchannels_def setsampwidth_def setframerate_def
      unwind_write_def destroy_write_def close_write_def ensure_header_written_def
      Wave_write_def)

lemma writewave_not_division:
  "0 < nchannels \<Longrightarrow> writewave b input Fs sampwidth nchannels \<noteq> Inl DivisionByZero"
  by (auto simp: writewave_def Let_def setnchannels_def setsampwidth_def setframerate_def
      writeframes_def close_write_def destroy_write_def
      split: sum.splits if_splits prod.splits
      dest!: quantize_all_error ensure_header_written_error unwind_write_division)

text \<open>
  C10.  With a channel count of 0 and a file that opens, \<open>writewave\<close> stops at the
  division of the input length by the channel count: the result is the crash of the division
  by zero, which is not a validation error, although \<open>setnchannels\<close> would reject the
  0 with "bad # of channels" had it been reached.  With a channel count of at least 1 the
  division never fails.
\<close>

theorem zero_channels_divides_before_validation:
  "writewave True input Fs sampwidth 0 = Inl DivisionByZero
   \<and> error_class_of DivisionByZero \<noteq> ValidationError
   \<and> setnchannels 0 Wave_write = Inl (BadChannels, Wave_write)
   \<and> error_class_of BadChannels = ValidationError
   \<and> (1 \<le> nchannels \<longrightarrow> writewave is_open input Fs sampwidth nchannels \<noteq> Inl DivisionByZero)"
  using writewave_not_division [of nchannels is_open input Fs sampwidth]
  by (simp add: writewave_def setnchannels_def Wave_write_def)

theorem zero_channels_witness:
  "(1::nat) \<le> 1 \<and> writewave True [1 / 2] 8000 2 1 \<noteq> Inl DivisionByZero
   \<and> writewave True [1 / 2] 8000 2 0 = Inl DivisionByZero"
  using zero_channels_divides_before_validation [of "[1 / 2]" 8000 2 1 True] by simp

subsection \<open>Frames and bytes read\<close>











subsection \<open>The layout of the written frames\<close>

lemma length_le_bytes [simp]: "length (le_bytes n v) = n"
  by (induction n arbitrary: v) simp_all

lemma quantize_length: "quantize w sc x = Inr bs \<Longrightarrow> length bs = w"
  by (auto simp: quantize_def Let_def split: sum.splits if_splits)

lemma quantize_all_length: "quantize_all w sc xs = Inr q \<Longrightarrow> length q = length xs * w"
  by (induction xs arbitrary: q) (auto split: sum.splits dest: quantize_length)

lemma quantize_all_take:
  "quantize_all w sc xs = Inr q \<Longrightarrow> quantize_all w sc (take k xs) = Inr (take (k * w) q)"
proof (induction xs arbitrary: q k)
  case Nil
  then show ?case by simp
next
  case (Cons x xs)
  from Cons.prems obtain bs rest where b: "quantize w sc x = Inr bs"
    and r: "quantize_all w sc xs = Inr rest" and q: "q = bs @ rest"
    by (auto split: sum.splits)
  show ?case
  proof (cases k)
    case 0
    then show ?thesis by simp
  next
    case (Suc m)
    from quantize_length [OF b] have "take (Suc m * w) (bs @ rest) = bs @ take (m * w) rest"
      by simp
    with Cons.IH [OF r, of m] b show ?thesis by (simp add: Suc q)
  qed
qed

lemma quantize_all_nth:
  "quantize_all w sc xs = Inr q \<Longrightarrow> k < length xs \<Longrightarrow>
   quantize w sc (xs ! k) = Inr (take w (drop (k * w) q))"
proof (induction xs arbitrary: q k)
  case Nil
  then show ?case by simp
next
  case (Cons x xs)
  from Cons.prems obtain bs rest where b: "quantize w sc x = Inr bs"
    and r: "quantize_all w sc xs = Inr rest" and q: "q = bs @ rest"
    by (auto split: sum.splits)
  show ?case
  proof (cases k)
    case 0
    with b quantize_length [OF b] show ?thesis by (simp add: q)
  next
    case (Suc m)
    with Cons.prems have "m < length xs" by simp
    from Cons.IH [OF r this] quantize_length [OF b] show ?thesis by (simp add: Suc q)
  qed
qed

lemma writewave_returns:
  assumes "writewave True input Fs w c = Inr (ok, written)"
  shows "ok \<and> 1 \<le> c \<and> 1 \<le> w \<and> w \<le> 4 \<and> 0 < Fs
    \<and> (\<exists>q. quantize_all w (f32 (2 ^ (8 * w))) input = Inr q
          \<and> written = Some (wave_file c Fs w (take (length input div c * w * c) q)))"
  using assms
  by (auto simp: writewave_def Let_def setnchannels_def setsampwidth_def setframerate_def
      writeframes_def close_write_def destroy_write_def Wave_write_def
      ensure_header_written_def written_file_def data_chunk_write_def chunk_write_def
      new_chunk_def wave_file_def
      split: sum.splits if_splits prod.splits)

text \<open>
  C3, as amended.  What \<open>writewave\<close> writes when it returns: the payload of the
  \<open>data\<close> chunk is the quantization of the first \<open>nframes * nchannels\<close> input values,
  where \<open>nframes\<close> is the input length divided by the channel count, each value once and
  in input order.  Channel \<open>j\<close> of frame \<open>i\<close> holds the bytes of input value
  \<open>i * nchannels + j\<close>: the input is taken as interleaved, and no value is repeated.
\<close>

theorem written_frames_are_interleaved_input:
  assumes "writewave True input Fs sampwidth nchannels = Inr (ok, Some container)"
  shows "\<exists>payload.
           container = wave_file nchannels Fs sampwidth payload
         \<and> length payload = length input div nchannels * nchannels * sampwidth
         \<and> quantize_all sampwidth (f32 (2 ^ (8 * sampwidth)))
              (take (length input div nchannels * nchannels) input) = Inr payload
         \<and> (\<forall>i<length input div nchannels. \<forall>j<nchannels.
               quantize sampwidth (f32 (2 ^ (8 * sampwidth))) (input ! (i * nchannels + j))
               = Inr (take sampwidth (drop ((i * nchannels + j) * sampwidth) payload)))"
proof -
  let ?n = "length input div nchannels * nchannels"
  let ?sc = "f32 (2 ^ (8 * sampwidth))"
  from writewave_returns [OF assms] obtain q where q: "quantize_all sampwidth ?sc input = Inr q"
    and c: "container = wave_file nchannels Fs sampwidth (take (length input div nchannels * sampwidth * nchannels) q)"
    and n: "1 \<le> nchannels"
    by auto
  let ?p = "take (?n * sampwidth) q"
  have le: "?n \<le> length input" by simp
  have t: "quantize_all sampwidth ?sc (take ?n input) = Inr ?p"
    using q by (rule quantize_all_take)
  have l: "length ?p = ?n * sampwidth"
    using quantize_all_length [OF t] le by simp
  have nth: "quantize sampwidth ?sc (input ! (i * nchannels + j))
      = Inr (take sampwidth (drop ((i * nchannels + j) * sampwidth) ?p))"
    if "i < length input div nchannels" and "j < nchannels" for i j
  proof -
    have "i * nchannels + j < Suc i * nchannels" using that by simp
    also have "\<dots> \<le> ?n" using that by (intro mult_le_mono1) simp
    finally have k: "i * nchannels + j < ?n" .
    then have "i * nchannels + j < length (take ?n input)" using le by simp
    from quantize_all_nth [OF t this] k show ?thesis by simp
  qed
  have "length input div nchannels * sampwidth * nchannels = ?n * sampwidth"
    by (simp add: ac_simps)
  with c t l nth show ?thesis by (intro exI [of _ ?p]) simp
qed

lemmas quantize_simps = quantize_def f32_numeral f32_neg_numeral f32_half f32_minus
  f32_to_int32_def trunc_zero_def le_bytes_num

lemmas write_simps = writewave_def setnchannels_def setsampwidth_def setframerate_def
  writeframes_def close_write_def destroy_write_def unwind_write_def Wave_write_def ensure_header_written_def
  written_file_def data_chunk_write_def chunk_write_def new_chunk_def wave_file_def

lemma two_channels_written:
  "writewave True [1 / 2, - (1 / 2)] 8000 1 2 = Inr (True, Some (wave_file 2 8000 1 [0xC0, 0x40]))"
  by (simp add: write_simps quantize_simps)

theorem written_frames_witness:
  "writewave True [1 / 2, - (1 / 2)] 8000 1 2 = Inr (True, Some (wave_file 2 8000 1 [0xC0, 0x40]))
   \<and> (\<exists>payload. wave_file 2 8000 1 [0xC0, 0x40] = wave_file 2 8000 1 payload
         \<and> length payload = 2
         \<and> quantize_all 1 (f32 (2 ^ 8)) [1 / 2, - (1 / 2)] = Inr payload)"
  using written_frames_are_interleaved_input [OF two_channels_written] two_channels_written
  by auto

theorem replication_counterexample:
  "writewave True [1 / 2, - (1 / 2)] 8000 1 2 = Inr (True, Some (wave_file 2 8000 1 [0xC0, 0x40]))
   \<and> quantize 1 (f32 (2 ^ (8 * 1))) (1 / 2) = Inr [0xC0]
   \<and> quantize 1 (f32 (2 ^ (8 * 1))) (- (1 / 2)) = Inr [0x40]
   \<and> replicate_channels 2 [[0xC0], [0x40]] = [0xC0, 0xC0, 0x40, 0x40]
   \<and> wave_file 2 8000 1 [0xC0, 0x40] \<noteq> wave_file 2 8000 1 (replicate_channels 2 [[0xC0], [0x40]])"
proof -
  have r: "replicate_channels 2 [[0xC0], [0x40]] = [0xC0, 0xC0, 0x40, 0x40]"
    by (simp add: replicate_channels_def numeral_2_eq_2)
  have q: "quantize 1 (f32 (2 ^ (8 * 1))) (1 / 2) = Inr [0xC0]"
    "quantize 1 (f32 (2 ^ (8 * 1))) (- (1 / 2)) = Inr [0x40]"
    by (simp_all add: quantize_simps)
  have "wave_file 2 8000 1 [0xC0, 0x40] \<noteq> wave_file 2 8000 1 [0xC0, 0xC0, 0x40, 0x40]"
    by (simp add: wave_file_def)
  with r q two_channels_written show ?thesis by simp
qed

subsection \<open>Decoded samples\<close>

lemma channel_bytes_length:
  assumes "j < nchannels" and "length readbuf = nchannels * sampwidth"
  shows "length (take sampwidth (drop (j * sampwidth) readbuf)) = sampwidth"
proof -
  have "Suc j * sampwidth \<le> nchannels * sampwidth"
    using assms(1) by (intro mult_le_mono1) simp
  then show ?thesis using assms(2) by simp
qed

lemma sign_correct_pcm_value:
  assumes "1 \<le> sampwidth" and "sampwidth \<le> 4" and "u < 256 ^ sampwidth"
  shows "sint (sign_correct sampwidth (of_nat u)) = pcm_value sampwidth u"
proof -
  from assms(1,2) consider "sampwidth = 1" | "sampwidth = 2" | "sampwidth = 3" | "sampwidth = 4"
    by linarith
  then show ?thesis
  proof cases
    case 1
    with assms(3) sign_correct_1 [of u] show ?thesis by (simp add: pcm_value_def)
  next
    case 2
    with assms(3) sign_correct_2 [of u] show ?thesis by (simp add: pcm_value_def)
  next
    case 3
    with assms(3) sign_correct_3 [of u] show ?thesis by (simp add: pcm_value_def)
  next
    case 4
    with assms(3) sign_correct_4 [of u] show ?thesis by (simp add: pcm_value_def)
  qed
qed

lemma pcm_value_range:
  assumes "1 \<le> sampwidth" and "u < 256 ^ sampwidth"
  shows "- (2 ^ (8 * sampwidth - 1)) \<le> pcm_value sampwidth u
    \<and> pcm_value sampwidth u < 2 ^ (8 * sampwidth - 1)"
proof (cases "sampwidth = 1")
  case True
  then show ?thesis using assms(2) by (simp add: pcm_value_def)
next
  case False
  let ?h = "(2::int) ^ (8 * sampwidth - 1)"
  have p: "(256::nat) ^ sampwidth = 2 ^ (8 * sampwidth)"
    by (simp add: power_mult)
  have "8 * sampwidth = Suc (8 * sampwidth - 1)" using assms(1) by simp
  then have d: "(2::int) ^ (8 * sampwidth) = 2 * ?h"
    by (metis power_Suc)
  have u: "int u < 2 * ?h"
    using assms(2) unfolding p d [symmetric] by (metis of_nat_less_numeral_power_cancel_iff)
  have h: "0 < ?h" by simp
  have c: "(u < 2 ^ (8 * sampwidth - 1)) = (int u < ?h)"
    by (metis of_nat_less_numeral_power_cancel_iff)
  have "pcm_value sampwidth u = (if int u < ?h then int u else int u - 2 * ?h)"
    using False by (simp only: pcm_value_def c d if_False)
  with u h show ?thesis by (simp split: if_splits)
qed

lemma f32_representable:
  "\<bar>N\<bar> \<le> 2 ^ 24 \<Longrightarrow> f32 (of_int N * 2 powi e) = of_int N * 2 powi e"
  by (simp add: f32_scale f32_of_int)

lemma f32_idem [simp]: "f32 (f32 x) = f32 x"
proof (cases "x = 0")
  case True then show ?thesis by simp
next
  case False
  let ?u = "(2::real) powi (f32_exponent x - 23)"
  let ?N = "round_even (x / ?u)"
  have "\<bar>x\<bar> / ?u = \<bar>x / ?u\<bar>" by simp
  then have a: "\<bar>x / ?u\<bar> < 2 ^ 24"
    using significand_bounds(2) [OF False] by (simp only:)
  have "- (2 ^ 24) \<le> x / ?u" "x / ?u \<le> 2 ^ 24" using a by linarith+
  then have lo: "of_int (- (2 ^ 24)) \<le> x / ?u" and hi: "x / ?u \<le> of_int (2 ^ 24)"
    by simp_all
  have "round_even (of_int (- (2 ^ 24))) \<le> ?N" using lo by (rule round_even_mono)
  moreover have "?N \<le> round_even (of_int (2 ^ 24))" using hi by (rule round_even_mono)
  ultimately have "- (2 ^ 24) \<le> ?N \<and> ?N \<le> 2 ^ 24" by (simp only: round_even_of_int)
  then have "\<bar>?N\<bar> \<le> 2 ^ 24" by linarith
  then have "f32 (of_int ?N * ?u) = of_int ?N * ?u" by (rule f32_representable)
  then show ?thesis using False by (simp add: f32_def Let_def)
qed

lemma decode_channels_mono_scale:
  assumes "sampwidth \<le> 4"
  shows "decode_channels sampwidth 1 (f32 (1 / f32 (real 1))) readbuf 0 0
     = Inr (f32 (of_int (sint (channel_sample sampwidth readbuf 0))))"
  using assms by (simp add: decode_channels_mono)

text \<open>
  C2, as amended.  For a sample width from 1 to 4 and a frame of \<open>nchannels\<close> samples,
  the sample of channel \<open>j\<close> after the sign correction is the value that its
  \<open>sampwidth\<close> little-endian bytes denote in the file format: the unsigned byte less
  0x80 for width 1, the two's complement value for widths 2, 3 and 4; it lies between
  \<open>- 2 ^ (8 * sampwidth - 1)\<close> and \<open>2 ^ (8 * sampwidth - 1) - 1\<close>.  The float
  decoded from a mono frame is this integer, converted to single precision and not divided
  by anything: exactly the integer for widths 1 to 3.  In particular the byte 0x00 of
  width 1 denotes - 128 and the byte 0xFF denotes 127.
\<close>

theorem decoded_sample_is_the_signed_integer:
  assumes "1 \<le> sampwidth" and "sampwidth \<le> 4"
    and "j < nchannels" and "length readbuf = nchannels * sampwidth"
  shows "sint (channel_sample sampwidth readbuf j)
           = pcm_value sampwidth (le_nat (take sampwidth (drop (j * sampwidth) readbuf)))
       \<and> - (2 ^ (8 * sampwidth - 1)) \<le> sint (channel_sample sampwidth readbuf j)
       \<and> sint (channel_sample sampwidth readbuf j) < 2 ^ (8 * sampwidth - 1)
       \<and> (nchannels = 1 \<longrightarrow>
            decode_channels sampwidth nchannels (f32 (1 / f32 (real nchannels))) readbuf 0 0
              = Inr (f32 (of_int (pcm_value sampwidth (le_nat readbuf)))))
       \<and> (nchannels = 1 \<and> sampwidth \<le> 3 \<longrightarrow>
            decode_channels sampwidth nchannels (f32 (1 / f32 (real nchannels))) readbuf 0 0
              = Inr (of_int (pcm_value sampwidth (le_nat readbuf))))
       \<and> pcm_value 1 (le_nat [0x00]) = - 128 \<and> pcm_value 1 (le_nat [0xFF]) = 127"
proof -
  let ?bs = "take sampwidth (drop (j * sampwidth) readbuf)"
  have len: "length ?bs = sampwidth"
    using assms(3,4) by (rule channel_bytes_length)
  have u: "le_nat ?bs < 256 ^ sampwidth"
    using le_nat_bound [of ?bs] len by simp
  have s: "sint (channel_sample sampwidth readbuf j) = pcm_value sampwidth (le_nat ?bs)"
    unfolding channel_sample_def using assms(1,2) u by (rule sign_correct_pcm_value)
  note r = pcm_value_range [OF assms(1) u]
  have m: "decode_channels sampwidth nchannels (f32 (1 / f32 (real nchannels))) readbuf 0 0
      = Inr (f32 (of_int (pcm_value sampwidth (le_nat readbuf))))" if "nchannels = 1"
  proof -
    have "j = 0" "take sampwidth readbuf = readbuf" using that assms(3,4) by simp_all
    with s have "sint (channel_sample sampwidth readbuf 0) = pcm_value sampwidth (le_nat readbuf)"
      by simp
    with decode_channels_mono_scale [OF assms(2), of readbuf] that show ?thesis by simp
  qed
  have e: "f32 (of_int (pcm_value sampwidth (le_nat readbuf)))
      = of_int (pcm_value sampwidth (le_nat readbuf))" if "nchannels = 1" and "sampwidth \<le> 3"
  proof -
    have "j = 0" "take sampwidth readbuf = readbuf" using that assms(3,4) by simp_all
    with r have b: "- (2 ^ (8 * sampwidth - 1)) \<le> pcm_value sampwidth (le_nat readbuf)"
      "pcm_value sampwidth (le_nat readbuf) < 2 ^ (8 * sampwidth - 1)" by simp_all
    have "8 * sampwidth - 1 \<le> 24" using that(2) by simp
    then have "(2::int) ^ (8 * sampwidth - 1) \<le> 2 ^ 24"
      by (intro power_increasing) simp_all
    with b have "\<bar>pcm_value sampwidth (le_nat readbuf)\<bar> \<le> 2 ^ 24" by linarith
    then show ?thesis by (rule f32_of_int)
  qed
  have c: "pcm_value 1 (le_nat [0x00]) = - 128" "pcm_value 1 (le_nat [0xFF]) = 127"
    by (simp_all add: pcm_value_def)
  from s r m e c show ?thesis by simp
qed

subsection \<open>Quantization of one value\<close>

lemma f32_ge_int:
  assumes "of_int a \<le> y" and "\<bar>a\<bar> \<le> 2 ^ 24"
  shows "of_int a \<le> f32 y"
  using f32_mono [OF assms(1)] f32_of_int [OF assms(2)] by simp

lemma f32_le_int:
  assumes "y \<le> of_int b" and "\<bar>b\<bar> \<le> 2 ^ 24"
  shows "f32 y \<le> of_int b"
  using f32_mono [OF assms(1)] f32_of_int [OF assms(2)] by simp

lemma trunc_zero_bounds:
  assumes "of_int a \<le> v" and "v \<le> of_int b"
  shows "a \<le> trunc_zero v" and "trunc_zero v \<le> b"
proof -
  have "a \<le> \<lfloor>v\<rfloor>" using assms(1) by (simp add: le_floor_iff)
  moreover have "\<lceil>v\<rceil> \<le> b" using assms(2) by (simp add: ceiling_le_iff)
  moreover have "\<lfloor>v\<rfloor> \<le> \<lceil>v\<rceil>" by (rule floor_le_ceiling)
  ultimately have "a \<le> \<lceil>v\<rceil>" "\<lfloor>v\<rfloor> \<le> b" "a \<le> \<lfloor>v\<rfloor>" "\<lceil>v\<rceil> \<le> b"
    by linarith+
  then show "a \<le> trunc_zero v" and "trunc_zero v \<le> b"
    by (simp_all add: trunc_zero_def)
qed

lemma half_bounds:
  fixes t :: int
  shows "(of_int t - 1) / 2 \<le> (of_int (t div 2) :: real)" and "(of_int (t div 2) :: real) \<le> of_int t / 2"
proof -
  have "t = 2 * (t div 2) + t mod 2" by simp
  moreover have "0 \<le> t mod 2" "t mod 2 \<le> 1" by presburger+
  ultimately have "2 * (t div 2) \<le> t" "t - 1 \<le> 2 * (t div 2)" by linarith+
  then have "(of_int (2 * (t div 2)) :: real) \<le> of_int t" "(of_int (t - 1) :: real) \<le> of_int (2 * (t div 2))"
    by (simp_all only: of_int_le_iff)
  then show "(of_int t - 1) / 2 \<le> (of_int (t div 2) :: real)" and "(of_int (t div 2) :: real) \<le> of_int t / 2"
    by simp_all
qed

lemma quantized_close:
  assumes lo: "of_int \<lfloor>y\<rfloor> \<le> v" and hi: "v \<le> of_int (\<lfloor>y\<rfloor> + 1)"
    and ex: "y = of_int \<lfloor>y\<rfloor> \<Longrightarrow> v = y"
  shows "\<bar>of_int (trunc_zero v div 2) - (y - 1) / 2\<bar> < 1"
proof -
  let ?n = "\<lfloor>y\<rfloor>"
  let ?t = "trunc_zero v"
  have y: "of_int ?n \<le> y" "y < of_int ?n + 1" by linarith+
  have t: "?n \<le> ?t" "?t \<le> ?n + 1" using trunc_zero_bounds [OF lo hi] by simp_all
  have low: "(of_int ?n - 1) / 2 \<le> (of_int (?t div 2) :: real)"
  proof -
    have "(of_int ?n - 1) / 2 \<le> (of_int ?t - 1) / (2::real)" using t(1) by simp
    also have "\<dots> \<le> of_int (?t div 2)" by (rule half_bounds)
    finally show ?thesis .
  qed
  have up: "(of_int (?t div 2) :: real) < (y + 1) / 2"
  proof (cases "?t = ?n")
    case True
    have "(of_int (?t div 2) :: real) \<le> of_int ?t / 2" by (rule half_bounds)
    also have "\<dots> \<le> y / 2" using y(1) True by simp
    finally show ?thesis by simp
  next
    case False
    with t have tn: "?t = ?n + 1" by linarith
    have "y \<noteq> of_int ?n"
    proof
      assume e: "y = of_int ?n"
      then have "v = of_int ?n" using ex by simp
      then have "?t = ?n" by (simp add: trunc_zero_def)
      with False show False by simp
    qed
    with y(1) have "of_int ?n < y" by linarith
    have "(of_int (?t div 2) :: real) \<le> of_int ?t / 2" by (rule half_bounds)
    also have "\<dots> = (of_int ?n + 1) / 2" by (simp add: tn)
    also have "\<dots> < (y + 1) / 2" using \<open>of_int ?n < y\<close> by simp
    finally show ?thesis .
  qed
  from low up y show ?thesis by (simp add: abs_less_iff field_simps)
qed

lemma is_f32_multiple:
  assumes "is_f32 p" and "p \<noteq> 0"
  shows "p = of_int (round_even (p / 2 powi (f32_exponent p - 23))) * 2 powi (f32_exponent p - 23)"
  using assms by (simp add: is_f32_def f32_def Let_def)

lemma f32_add_one_exact:
  fixes p :: real and n :: int
  assumes fp: "is_f32 p" and lo: "2 powi (n - 1) \<le> p" and hi: "p + 1 < 2 powi n"
    and n: "n \<le> 24"
  shows "f32 (p + 1) = p + 1"
proof -
  let ?u = "(2::real) powi (n - 1 - 23)"
  have pos: "(0::real) < 2 powi (n - 1)" by simp
  with lo have p0: "0 < p" by linarith
  have "p < 2 powi (n - 1 + 1)" using hi by simp
  then have e1: "f32_exponent p = n - 1"
    using lo p0 by (intro f32_exponent_eq) simp_all
  have "p + 1 < 2 powi (n - 1 + 1)" using hi by simp
  then have e2: "f32_exponent (p + 1) = n - 1"
    using lo p0 by (intro f32_exponent_eq) simp_all
  define N where "N = round_even (p / ?u)"
  have p: "p = of_int N * ?u"
    using is_f32_multiple [OF fp] p0 unfolding e1 N_def by simp
  have "0 \<le> 24 - n" using n by simp
  then have "(1::real) / ?u = 2 ^ nat (24 - n)"
    by (simp add: power_int_diff power_int_def field_simps)
  then have "(p + 1) / ?u = of_int N + 2 ^ nat (24 - n)"
    using p by (simp add: field_simps)
  also have "\<dots> = of_int (N + 2 ^ nat (24 - n))" by simp
  finally have "(p + 1) / 2 powi (f32_exponent (p + 1) - 23) = of_int (N + 2 ^ nat (24 - n))"
    unfolding e2 .
  then show ?thesis by (rule f32_exactI)
qed

lemma quantize_float_part:
  fixes x :: real and n :: nat
  assumes n: "2 \<le> n" "n \<le> 24" and fx: "is_f32 x" and lo: "- 1 \<le> x" and hi: "x < 1 - 1 / 2 ^ n"
  shows "- (2 ^ n) + 1 \<le> trunc_zero (f32 (f32 (x * f32 (2 ^ n)) + 1))
    \<and> trunc_zero (f32 (f32 (x * f32 (2 ^ n)) + 1)) \<le> 2 ^ n - 1
    \<and> \<bar>of_int (trunc_zero (f32 (f32 (x * f32 (2 ^ n)) + 1)) div 2) - x * 2 ^ n / 2\<bar> < 1"
proof -
  let ?S = "(2::real) ^ n"
  let ?a = "- (2 ^ n) + 1 :: int"
  let ?b = "2 ^ n - 1 :: int"
  define y where "y = x * ?S + 1"
  have "f32 (x * 2 powi int n) = f32 x * 2 powi int n" by (rule f32_scale)
  then have p: "f32 (x * ?S) = x * ?S"
    using fx by (simp add: is_f32_def)
  then have fp: "is_f32 (x * ?S)" by (simp add: is_f32_def)
  have S24: "(2::int) ^ n \<le> 2 ^ 24" using n by (intro power_increasing) simp_all
  have S1: "(1::int) \<le> 2 ^ n" by simp
  have ab: "\<bar>?a\<bar> \<le> 2 ^ 24" "\<bar>?b\<bar> \<le> 2 ^ 24" using S24 S1 by linarith+
  have "(- 1) * ?S \<le> x * ?S" using lo by (intro mult_right_mono) simp_all
  then have ya: "of_int ?a \<le> y" by (simp add: y_def)
  have "x * ?S < (1 - 1 / ?S) * ?S" using hi by (intro mult_strict_right_mono) simp_all
  also have "\<dots> = ?S - 1" by (simp add: field_simps)
  finally have yS: "y < ?S" by (simp add: y_def)
  have va: "of_int ?a \<le> f32 y" using ya ab(1) by (rule f32_ge_int)
  have vS: "f32 y < ?S"
  proof (cases "y \<le> of_int ?b")
    case True
    then have "f32 y \<le> of_int ?b" using ab(2) by (rule f32_le_int)
    then show ?thesis by simp
  next
    case False
    then have "?S - 1 < y" by simp
    then have l: "?S - 2 < x * ?S" by (simp add: y_def)
    have "n = Suc (Suc (n - 2))" using n(1) by simp
    then have "?S = 2 * (2 * 2 ^ (n - 2))" by (metis power_Suc)
    moreover have "(1::real) \<le> 2 ^ (n - 2)" by simp
    ultimately have "?S / 2 \<le> ?S - 2" by linarith
    moreover have "(2::real) powi (int n - 1) = ?S / 2"
      by (simp add: power_int_diff)
    ultimately have "2 powi (int n - 1) \<le> x * ?S" using l by linarith
    moreover have "x * ?S + 1 < 2 powi int n" using yS by (simp add: y_def)
    moreover have "int n \<le> 24" using n(2) by simp
    ultimately have "f32 (x * ?S + 1) = x * ?S + 1"
      using fp by (intro f32_add_one_exact) 
    then show ?thesis using yS by (simp add: y_def)
  qed
  have ta: "?a \<le> trunc_zero (f32 y)"
  proof -
    have "?a \<le> \<lfloor>f32 y\<rfloor>" using va by (simp only: le_floor_iff)
    moreover have "\<lfloor>f32 y\<rfloor> \<le> \<lceil>f32 y\<rceil>" by (rule floor_le_ceiling)
    ultimately have "?a \<le> \<lfloor>f32 y\<rfloor> \<and> ?a \<le> \<lceil>f32 y\<rceil>" by linarith
    then show ?thesis by (simp add: trunc_zero_def)
  qed
  have tb: "trunc_zero (f32 y) \<le> ?b"
  proof -
    have "f32 y < of_int (2 ^ n)" using vS by simp
    then have "\<lfloor>f32 y\<rfloor> < 2 ^ n" by (simp only: floor_less_iff)
    then have f: "\<lfloor>f32 y\<rfloor> \<le> ?b" by linarith
    have c: "\<lceil>f32 y\<rceil> \<le> ?b" if "\<not> 0 \<le> f32 y"
    proof -
      have "f32 y \<le> of_int 0" using that by simp
      then have "\<lceil>f32 y\<rceil> \<le> 0" by (simp only: ceiling_le_iff)
      with S1 show ?thesis by linarith
    qed
    from f c show ?thesis by (simp add: trunc_zero_def)
  qed
  define m where "m = \<lfloor>y\<rfloor>"
  have na: "?a \<le> m" unfolding m_def using ya by (simp only: le_floor_iff)
  have "y < of_int (2 ^ n)" using yS by simp
  then have nb: "m < 2 ^ n" unfolding m_def by (simp only: floor_less_iff)
  have n24: "\<bar>m\<bar> \<le> 2 ^ 24" "\<bar>m + 1\<bar> \<le> 2 ^ 24" using na nb S24 S1 by linarith+
  have my: "of_int m \<le> y" "y \<le> of_int (m + 1)" unfolding m_def by linarith+
  have v1: "of_int \<lfloor>y\<rfloor> \<le> f32 y" using my(1) n24(1) unfolding m_def by (rule f32_ge_int)
  have v2: "f32 y \<le> of_int (\<lfloor>y\<rfloor> + 1)" using my(2) n24(2) unfolding m_def by (rule f32_le_int)
  have ex: "f32 y = y" if "y = of_int \<lfloor>y\<rfloor>"
  proof -
    have "f32 (of_int m) = of_int m" using n24(1) by (rule f32_of_int)
    with that show ?thesis unfolding m_def by metis
  qed
  have "\<bar>of_int (trunc_zero (f32 y) div 2) - (y - 1) / 2\<bar> < 1"
    using v1 v2 ex by (rule quantized_close)
  moreover have "(y - 1) / 2 = x * ?S / 2" by (simp add: y_def)
  ultimately have "\<bar>of_int (trunc_zero (f32 y) div 2) - x * ?S / 2\<bar> < 1"
    by (simp only:)
  with ta tb show ?thesis by (simp only: p f32_power2 y_def)
qed

text \<open>The rounding returns a nearest representable number.\<close>

lemma round_even_nearest: "\<bar>of_int (round_even x) - x\<bar> \<le> \<bar>of_int n - x\<bar>"
proof -
  have fl: "of_int \<lfloor>x\<rfloor> \<le> x" "x < of_int \<lfloor>x\<rfloor> + 1" by linarith+
  consider "n \<le> \<lfloor>x\<rfloor>" | "\<lfloor>x\<rfloor> + 1 \<le> n" by linarith
  then have n: "(of_int n :: real) \<le> of_int \<lfloor>x\<rfloor> \<or> of_int \<lfloor>x\<rfloor> + 1 \<le> (of_int n :: real)"
  proof cases
    case 1
    then show ?thesis by simp
  next
    case 2
    then have "(of_int (\<lfloor>x\<rfloor> + 1) :: real) \<le> of_int n" by (simp only: of_int_le_iff)
    then show ?thesis by simp
  qed
  from fl n show ?thesis
    unfolding round_even_def Let_def by auto
qed

lemma powi_less_imp_less:
  assumes "(2::real) powi a < 2 powi b"
  shows "a < b"
proof (rule ccontr)
  assume "\<not> a < b"
  then have "b \<le> a" by simp
  then have "(2::real) powi b \<le> 2 powi a" by (intro power_int_increasing) simp_all
  with assms show False by linarith
qed

lemma f32_grid:
  assumes fv: "is_f32 v" and big: "2 ^ (23 + k) \<le> \<bar>v\<bar>"
  shows "\<exists>N. v = of_int N * 2 ^ k"
proof -
  have "(0::real) < 2 ^ (23 + k)" by simp
  with big have "0 < \<bar>v\<bar>" by linarith
  then have v0: "v \<noteq> 0" by simp
  let ?e = "f32_exponent v"
  have "(2::real) powi int (23 + k) \<le> \<bar>v\<bar>" using big by (simp only: power_int_of_nat)
  also have "\<bar>v\<bar> < 2 powi (?e + 1)" using f32_exponent_bounds(2) [OF v0] .
  finally have "int (23 + k) < ?e + 1" by (rule powi_less_imp_less)
  then have e: "0 \<le> ?e - 23 - int k" by simp
  define j where "j = nat (?e - 23 - int k)"
  have "?e - 23 = int j + int k" using e by (simp add: j_def)
  then have u: "(2::real) powi (?e - 23) = 2 ^ j * 2 ^ k"
    by (simp add: power_int_add)
  define R where "R = round_even (v / 2 powi (?e - 23))"
  have "v = of_int R * 2 powi (?e - 23)"
    using is_f32_multiple [OF fv v0] by (simp only: R_def)
  then have "v = of_int (R * 2 ^ j) * 2 ^ k" by (simp add: u)
  then show ?thesis ..
qed

lemma f32_nearest_pos:
  assumes y: "0 < y" and fr: "is_f32 r"
  shows "\<bar>f32 y - y\<bar> \<le> \<bar>r - y\<bar>"
proof -
  let ?e = "f32_exponent y"
  let ?u = "(2::real) powi (?e - 23)"
  have y0: "y \<noteq> 0" using y by simp
  have u0: "0 < ?u" by simp
  have lo: "2 powi ?e \<le> y" using f32_exponent_bounds(1) [OF y0] y by simp
  have fy: "f32 y = of_int (round_even (y / ?u)) * ?u"
    using y0 by (simp add: f32_def Let_def)
  have near: "\<bar>f32 y - y\<bar> \<le> \<bar>of_int M * ?u - y\<bar>" for M :: int
  proof -
    have "\<bar>f32 y - y\<bar> = \<bar>of_int (round_even (y / ?u)) - y / ?u\<bar> * ?u"
      unfolding fy using u0 by (simp add: abs_mult_pos left_diff_distrib)
    also have "\<dots> \<le> \<bar>of_int M - y / ?u\<bar> * ?u"
      using u0 by (intro mult_right_mono round_even_nearest) simp
    also have "\<dots> = \<bar>of_int M * ?u - y\<bar>"
      using u0 by (simp add: abs_mult_pos left_diff_distrib)
    finally show ?thesis .
  qed
  show ?thesis
  proof (cases "2 powi ?e \<le> \<bar>r\<bar>")
    case True
    have "(0::real) < 2 powi ?e" by simp
    with True have "0 < \<bar>r\<bar>" by linarith
    then have r0: "r \<noteq> 0" by simp
    let ?er = "f32_exponent r"
    have "(2::real) powi ?e \<le> \<bar>r\<bar>" using True .
    also have "\<bar>r\<bar> < 2 powi (?er + 1)" using f32_exponent_bounds(2) [OF r0] .
    finally have "?e < ?er + 1" by (rule powi_less_imp_less)
    then have e: "0 \<le> ?er - ?e" by simp
    define j where "j = nat (?er - ?e)"
    have "?er - 23 = int j + (?e - 23)" using e by (simp add: j_def)
    then have "(2::real) powi (?er - 23) = 2 powi (int j + (?e - 23))" by (simp only:)
    also have "\<dots> = 2 powi int j * ?u" by (rule power_int_add) simp
    finally have u: "(2::real) powi (?er - 23) = 2 ^ j * ?u" by simp
    define R where "R = round_even (r / 2 powi (?er - 23))"
    have "r = of_int R * 2 powi (?er - 23)"
      using is_f32_multiple [OF fr r0] by (simp only: R_def)
    then have "r = of_int (R * 2 ^ j) * ?u" by (simp add: u)
    with near [of "R * 2 ^ j"] show ?thesis by simp
  next
    case False
    then have r: "r < 2 powi ?e" by simp
    have "(2::real) powi ?e = 2 powi (23 + (?e - 23))" by simp
    also have "\<dots> = 2 powi 23 * ?u" by (rule power_int_add) simp
    finally have g: "of_int (2 ^ 23) * ?u = 2 powi ?e" by simp
    from near [of "2 ^ 23"] have "\<bar>f32 y - y\<bar> \<le> \<bar>2 powi ?e - y\<bar>"
      by (simp only: g)
    with lo r show ?thesis by linarith
  qed
qed

lemma f32_nearest:
  assumes "is_f32 r"
  shows "\<bar>f32 y - y\<bar> \<le> \<bar>r - y\<bar>"
proof -
  consider "0 < y" | "y = 0" | "y < 0" by linarith
  then show ?thesis
  proof cases
    case 1
    then show ?thesis using assms by (rule f32_nearest_pos)
  next
    case 2
    then show ?thesis by simp
  next
    case 3
    then have "0 < - y" by simp
    moreover have "is_f32 (- r)" using assms by (simp add: is_f32_def f32_minus)
    ultimately have "\<bar>f32 (- y) - (- y)\<bar> \<le> \<bar>- r - (- y)\<bar>" by (rule f32_nearest_pos)
    then show ?thesis by (simp add: f32_minus)
  qed
qed

lemma f32_add_one_bounds:
  assumes "is_f32 p"
  shows "p \<le> f32 (p + 1)" and "f32 (p + 1) \<le> p + 2"
proof -
  have "\<bar>f32 (p + 1) - (p + 1)\<bar> \<le> \<bar>p - (p + 1)\<bar>" using assms by (rule f32_nearest)
  then have "\<bar>f32 (p + 1) - (p + 1)\<bar> \<le> 1" by simp
  then show "p \<le> f32 (p + 1)" and "f32 (p + 1) \<le> p + 2" by linarith+
qed

lemma quantize_float_part_wide:
  fixes p :: real
  assumes fp: "is_f32 p" and lo: "- (2 ^ 31) \<le> p" and hi: "p < 2 ^ 31"
  shows "- (2 ^ 31) \<le> trunc_zero (f32 (p + 1)) \<and> trunc_zero (f32 (p + 1)) < 2 ^ 31
    \<and> \<bar>of_int (trunc_zero (f32 (p + 1)) div 2) - p / 2\<bar> \<le> 1
    \<and> f32 (of_int (trunc_zero (f32 (p + 1)) div 2)) = of_int (trunc_zero (f32 (p + 1)) div 2)"
proof (cases "- (2 ^ 24) \<le> p \<and> p < 2 ^ 24 - 1")
  case True
  define x where "x = p / 2 ^ 24"
  have xp: "x = p * 2 powi (- 24)" by (simp add: x_def power_int_minus field_simps)
  have "f32 (p * 2 powi (- 24)) = f32 p * 2 powi (- 24)" by (rule f32_scale)
  then have fx: "is_f32 x" using fp by (simp add: is_f32_def xp)
  have xlo: "- 1 \<le> x" using True by (simp add: x_def field_simps)
  have xhi: "x < 1 - 1 / 2 ^ 24" using True by (simp add: x_def field_simps)
  have px: "x * f32 (2 ^ 24) = p" by (simp only: f32_power2) (simp add: x_def)
  have pp: "f32 p = p" using fp by (simp add: is_f32_def)
  let ?t = "trunc_zero (f32 (p + 1))"
  have "- (2 ^ 24) + 1 \<le> trunc_zero (f32 (f32 (x * f32 (2 ^ 24)) + 1))
    \<and> trunc_zero (f32 (f32 (x * f32 (2 ^ 24)) + 1)) \<le> 2 ^ 24 - 1
    \<and> \<bar>of_int (trunc_zero (f32 (f32 (x * f32 (2 ^ 24)) + 1)) div 2) - x * 2 ^ 24 / 2\<bar> < 1"
    using _ _ fx xlo xhi by (rule quantize_float_part) simp_all
  then have t: "- (2 ^ 24) + 1 \<le> ?t" "?t \<le> 2 ^ 24 - 1"
    and c: "\<bar>of_int (?t div 2) - x * 2 ^ 24 / 2\<bar> < 1"
    unfolding px pp by blast+
  have "x * 2 ^ 24 / 2 = p / 2" by (simp add: x_def)
  with c have c': "\<bar>of_int (?t div 2) - p / 2\<bar> \<le> 1" by simp
  from t have "\<bar>?t div 2\<bar> \<le> 2 ^ 24" by simp
  then have e: "f32 (of_int (?t div 2)) = of_int (?t div 2)" by (rule f32_of_int)
  from t have "- (2 ^ 31) \<le> ?t" "?t < 2 ^ 31" by simp_all
  with c' e show ?thesis by blast
next
  case False
  let ?v = "f32 (p + 1)"
  have fv: "is_f32 ?v" by (simp add: is_f32_def)
  have vb: "p \<le> ?v" "?v \<le> p + 2" using f32_add_one_bounds [OF fp] .
  have big: "2 ^ (23 + 1) \<le> \<bar>?v\<bar>"
  proof (cases "2 ^ 24 - 1 \<le> p")
    case True
    then have "2 ^ 24 \<le> p + 1" by simp
    then have "f32 (2 ^ 24) \<le> ?v" by (rule f32_mono)
    then have "2 ^ 24 \<le> ?v" by (simp only: f32_power2)
    then show ?thesis by simp
  next
    case nb: False
    with False have neg: "p < - (2 ^ 24)" by linarith
    then have "2 ^ (23 + 1) \<le> \<bar>p\<bar>" by simp
    from f32_grid [OF fp this] obtain N where N: "p = of_int N * 2 ^ 1" ..
    have "of_int (N * 2) < (of_int (- (2 ^ 24)) :: real)" using neg N by simp
    then have "N * 2 < - (2 ^ 24)" by (simp only: of_int_less_iff)
    then have "N * 2 \<le> - (2 ^ 24) - 2" by simp
    then have "(of_int (N * 2) :: real) \<le> of_int (- (2 ^ 24) - 2)" by (simp only: of_int_le_iff)
    then have "p + 2 \<le> - (2 ^ 24)" using N by simp
    with vb(2) have "?v \<le> - (2 ^ 24)" by linarith
    then show ?thesis by simp
  qed
  from f32_grid [OF fv big] obtain M where "?v = of_int M * 2 ^ 1" ..
  then have vM: "?v = of_int (2 * M)" by simp
  have t: "trunc_zero ?v = 2 * M" by (simp only: vM trunc_zero_of_int)
  have q: "trunc_zero ?v div 2 = M" using t by simp
  have qv: "(of_int M :: real) = ?v / 2" using vM by simp
  have c: "\<bar>of_int M - p / 2\<bar> \<le> 1" using vb unfolding qv by simp
  have "f32 (?v / 2) = f32 ?v / 2" by (rule f32_half)
  then have ex: "f32 (of_int M) = of_int M" unfolding qv by simp
  have vlo: "- (2 ^ 31) \<le> ?v" using lo vb(1) by linarith
  have vhi: "?v < 2 ^ 31"
  proof (cases "p < 2 ^ 30")
    case True
    with vb(2) show ?thesis by simp
  next
    case nb: False
    then have "2 ^ (23 + 7) \<le> \<bar>p\<bar>" by simp
    from f32_grid [OF fp this] obtain N where N: "p = of_int N * 2 ^ 7" ..
    have "of_int (N * 128) < (of_int (2 ^ 31) :: real)" using hi N by simp
    then have "N * 128 < 2 ^ 31" by (simp only: of_int_less_iff)
    then have "N * 128 \<le> 2 ^ 31 - 128" by simp
    then have "(of_int (N * 128) :: real) \<le> of_int (2 ^ 31 - 128)" by (simp only: of_int_le_iff)
    then have "p \<le> 2 ^ 31 - 128" using N by simp
    with vb(2) show ?thesis by simp
  qed
  have "of_int (- (2 ^ 31)) \<le> (of_int (2 * M) :: real)" using vlo unfolding vM by simp
  then have tlo: "- (2 ^ 31) \<le> 2 * M" by (simp only: of_int_le_iff)
  have "(of_int (2 * M) :: real) < of_int (2 ^ 31)" using vhi unfolding vM by simp
  then have thi: "2 * M < 2 ^ 31" by (simp only: of_int_less_iff)
  from tlo thi c ex show ?thesis unfolding q unfolding t by blast
qed

lemma le_nat_le_bytes: "le_nat (le_bytes n v) = v mod 256 ^ n"
proof (induction n arbitrary: v)
  case 0
  then show ?case by simp
next
  case (Suc n)
  have "unat (of_nat (v mod 256) :: byte) = v mod 256"
    by (simp add: unat_of_nat)
  with Suc show ?case
    by (simp add: mod_mult2_eq)
qed

lemma mod_signed:
  fixes q h :: int
  assumes "- h \<le> q" and "q < h"
  shows "q mod (2 * h) = (if 0 \<le> q then q else q + 2 * h)"
proof (cases "0 \<le> q")
  case True
  then show ?thesis using assms by (simp add: mod_pos_pos_trivial)
next
  case False
  have "q mod (2 * h) = (q + 2 * h) mod (2 * h)" by simp
  also have "\<dots> = q + 2 * h" using False assms by (intro mod_pos_pos_trivial) simp_all
  finally show ?thesis using False by simp
qed

lemma shifted_sample:
  fixes t :: int
  assumes "- (2 ^ 31) \<le> t" and "t < 2 ^ 31"
  shows "signed_drop_bit 1 (word_of_int t :: 32 word) = word_of_int (t div 2)"
proof -
  have "sint (signed_drop_bit 1 (word_of_int t :: 32 word)) = drop_bit 1 (sint (word_of_int t :: 32 word))"
    by (rule sint_signed_drop_bit_eq)
  also have "sint (word_of_int t :: 32 word) = t" using assms by (rule sint32)
  finally have "sint (signed_drop_bit 1 (word_of_int t :: 32 word)) = t div 2"
    by (simp add: drop_bit_eq_div)
  then have "word_of_int (sint (signed_drop_bit 1 (word_of_int t :: 32 word))) = (word_of_int (t div 2) :: 32 word)"
    by simp
  then show ?thesis by simp
qed

lemma unat_word_of_int_32: "int (unat (word_of_int q :: 32 word)) = q mod 2 ^ 32"
  by (simp add: uint_word_of_int)

lemma quantize_bytes_part:
  fixes t :: int
  assumes w: "w = 1 \<or> w = 2 \<or> w = 3"
    and lo: "- (2 ^ (8 * w)) + 1 \<le> t" and hi: "t \<le> 2 ^ (8 * w) - 1"
  shows "pcm_value w (le_nat (le_bytes w (unat
           (if w = 1 then signed_drop_bit 1 (word_of_int t :: 32 word) + 0x80
            else signed_drop_bit 1 (word_of_int t))))) = t div 2"
proof -
  let ?q = "t div 2"
  let ?h = "(2::int) ^ (8 * w - 1)"
  have "8 * w = Suc (8 * w - 1)" using w by auto
  then have d: "(2::int) ^ (8 * w) = 2 * ?h" by (metis power_Suc)
  have q: "- ?h \<le> ?q" "?q < ?h" using lo hi unfolding d by linarith+
  have "8 * w - 1 \<le> 23" using w by auto
  then have "?h \<le> 2 ^ 23" by (intro power_increasing) simp_all
  then have h23: "?h \<le> 8388608" by simp
  have h0: "0 < ?h" by simp
  have "- 2147483648 \<le> t" "t < 2147483648" using lo hi h23 unfolding d by linarith+
  then have t31: "- (2 ^ 31) \<le> t" "t < 2 ^ 31" by simp_all
  have s: "signed_drop_bit 1 (word_of_int t :: 32 word) = word_of_int ?q"
    using t31 by (rule shifted_sample)
  show ?thesis
  proof (cases "w = 1")
    case True
    then have q1: "- 128 \<le> ?q" "?q < 128" using q by simp_all
    have "int (unat (word_of_int (?q + 128) :: 32 word)) = (?q + 128) mod 2 ^ 32"
      by (rule unat_word_of_int_32)
    also have "\<dots> = ?q + 128" using q1 by (intro mod_pos_pos_trivial) simp_all
    finally have u: "int (unat (word_of_int ?q + 128 :: 32 word)) = ?q + 128" by simp
    then have "unat (word_of_int ?q + 128 :: 32 word) < 256" using q1 by linarith
    then have "unat (word_of_int ?q + 128 :: 32 word) mod 256 ^ 1 = unat (word_of_int ?q + 128 :: 32 word)"
      by simp
    then have "le_nat (le_bytes 1 (unat (word_of_int ?q + 128 :: 32 word))) = unat (word_of_int ?q + 128 :: 32 word)"
      by (simp only: le_nat_le_bytes)
    then have "pcm_value 1 (le_nat (le_bytes 1 (unat (word_of_int ?q + 128 :: 32 word)))) = ?q"
      using u by (simp add: pcm_value_def)
    with True s show ?thesis by (simp only: refl if_True)
  next
    case False
    let ?u = "le_nat (le_bytes w (unat (word_of_int ?q :: 32 word)))"
    have p: "(256::nat) ^ w = 2 ^ (8 * w)" by (simp add: power_mult)
    have "8 * w \<le> 32" using w by auto
    then have dv: "(2::int) ^ (8 * w) dvd 2 ^ 32" by (intro le_imp_power_dvd)
    have "int ?u = int (unat (word_of_int ?q :: 32 word)) mod 2 ^ (8 * w)"
      by (simp add: le_nat_le_bytes p zmod_int)
    also have "\<dots> = (?q mod 2 ^ 32) mod 2 ^ (8 * w)" by (simp only: unat_word_of_int_32)
    also have "\<dots> = ?q mod 2 ^ (8 * w)" using dv by (rule mod_mod_cancel)
    also have "\<dots> = (if 0 \<le> ?q then ?q else ?q + 2 * ?h)"
      unfolding d using q by (rule mod_signed)
    finally have u: "int ?u = (if 0 \<le> ?q then ?q else ?q + 2 * ?h)" .
    have c: "(?u < 2 ^ (8 * w - 1)) = (int ?u < ?h)"
      by (metis of_nat_less_numeral_power_cancel_iff)
    have "pcm_value w ?u = (if int ?u < ?h then int ?u else int ?u - 2 * ?h)"
      using False by (simp only: pcm_value_def c d if_False)
    also have "\<dots> = ?q" using u q h0 by (simp split: if_splits)
    finally show ?thesis using False s by simp
  qed
qed

lemma quantize_bytes_part_wide:
  fixes t :: int
  assumes lo: "- (2 ^ 31) \<le> t" and hi: "t < 2 ^ 31"
  shows "pcm_value 4 (le_nat (le_bytes 4 (unat (signed_drop_bit 1 (word_of_int t :: 32 word)))))
    = t div 2"
proof -
  let ?q = "t div 2"
  let ?u = "le_nat (le_bytes 4 (unat (word_of_int ?q :: 32 word)))"
  have s: "signed_drop_bit 1 (word_of_int t :: 32 word) = word_of_int ?q"
    using lo hi by (rule shifted_sample)
  have q: "- 2147483648 \<le> ?q" "?q < 2147483648" using lo hi by simp_all
  have "int ?u = int (unat (word_of_int ?q :: 32 word)) mod 256 ^ 4"
    by (simp only: le_nat_le_bytes zmod_int) simp
  also have "\<dots> = (?q mod 2 ^ 32) mod 2 ^ 32" by (simp only: unat_word_of_int_32) simp
  also have "\<dots> = ?q mod (2 * 2147483648)" by simp
  also have "\<dots> = (if 0 \<le> ?q then ?q else ?q + 2 * 2147483648)"
    using q by (rule mod_signed)
  finally have u: "int ?u = (if 0 \<le> ?q then ?q else ?q + 4294967296)" by simp
  have c: "(?u < 2 ^ (8 * 4 - 1)) = (int ?u < 2147483648)"
    using of_nat_less_iff [of ?u 2147483648, where ?'a = int] by simp
  have "pcm_value 4 ?u = (if int ?u < 2147483648 then int ?u else int ?u - 4294967296)"
    unfolding pcm_value_def c by simp
  also have "\<dots> = ?q" using u q by (simp split: if_splits)
  finally show ?thesis unfolding s .
qed

lemma quantize_in_range:
  assumes w: "w = 1 \<or> w = 2 \<or> w = 3" and fx: "is_f32 x"
    and lo: "- 1 \<le> x" and hi: "x < 1 - 1 / 2 ^ (8 * w)"
  shows "\<exists>bs. quantize w (f32 (2 ^ (8 * w))) x = Inr bs \<and> length bs = w
    \<and> \<bar>of_int (pcm_value w (le_nat bs)) - x * 2 ^ (8 * w - 1)\<bar> < 1"
proof -
  let ?t = "trunc_zero (f32 (f32 (x * f32 (2 ^ (8 * w))) + 1))"
  have n: "2 \<le> 8 * w" "8 * w \<le> 24" using w by auto
  from quantize_float_part [OF n fx lo hi]
  have t: "- (2 ^ (8 * w)) + 1 \<le> ?t" "?t \<le> 2 ^ (8 * w) - 1"
    and c: "\<bar>of_int (?t div 2) - x * 2 ^ (8 * w) / 2\<bar> < 1"
    by blast+
  have "(2::int) ^ (8 * w) \<le> 2 ^ 24" using n(2) by (intro power_increasing) simp_all
  then have "(2::int) ^ (8 * w) \<le> 16777216" by simp
  with t have "- 2147483648 \<le> ?t" "?t < 2147483648" by linarith+
  then have i: "f32_to_int32 (f32 (f32 (x * f32 (2 ^ (8 * w))) + 1)) = Inr (word_of_int ?t)"
    by (simp add: f32_to_int32_def)
  have x1: "\<not> x > 1"
  proof -
    have "(0::real) \<le> 1 / 2 ^ (8 * w)" by simp
    with hi show ?thesis by linarith
  qed
  let ?bs = "le_bytes w (unat (if w = 1 then signed_drop_bit 1 (word_of_int ?t :: 32 word) + 0x80
            else signed_drop_bit 1 (word_of_int ?t)))"
  have w4: "\<not> w > 4" using w by auto
  have l1: "\<not> x < - 1" using lo by simp
  have q: "quantize w (f32 (2 ^ (8 * w))) x = Inr ?bs"
    unfolding quantize_def Let_def by (simp only: x1 l1 w4 i if_False sum.case)
  have "8 * w = Suc (8 * w - 1)" using w by auto
  then have "(2::real) ^ (8 * w) = 2 * 2 ^ (8 * w - 1)" by (metis power_Suc)
  then have "x * 2 ^ (8 * w) / 2 = x * 2 ^ (8 * w - 1)" by simp
  with c quantize_bytes_part [OF w t] q show ?thesis by auto
qed

lemma channel_sample_value:
  assumes "1 \<le> sampwidth" and "sampwidth \<le> 4"
    and "j < nchannels" and "length readbuf = nchannels * sampwidth"
  shows "sint (channel_sample sampwidth readbuf j)
    = pcm_value sampwidth (le_nat (take sampwidth (drop (j * sampwidth) readbuf)))"
proof -
  let ?bs = "take sampwidth (drop (j * sampwidth) readbuf)"
  have "length ?bs = sampwidth" using assms(3,4) by (rule channel_bytes_length)
  then have "le_nat ?bs < 256 ^ sampwidth" using le_nat_bound [of ?bs] by simp
  with assms(1,2) show ?thesis unfolding channel_sample_def by (rule sign_correct_pcm_value)
qed

lemma mono_frame_decoded:
  assumes "1 \<le> sampwidth" and "sampwidth \<le> 4" and "length readbuf = sampwidth"
  shows "decode_channels sampwidth 1 (f32 (1 / f32 (real 1))) readbuf 0 0
    = Inr (f32 (of_int (pcm_value sampwidth (le_nat readbuf))))"
proof -
  have "sint (channel_sample sampwidth readbuf 0) = pcm_value sampwidth (le_nat readbuf)"
    using channel_sample_value [OF assms(1,2), of 0 1 readbuf] assms(3) by simp
  with decode_channels_mono_scale [OF assms(2), of readbuf] show ?thesis by simp
qed

lemma mono_sample_exact:
  assumes "1 \<le> sampwidth" and "sampwidth \<le> 3" and "length readbuf = sampwidth"
  shows "f32 (of_int (pcm_value sampwidth (le_nat readbuf)))
    = of_int (pcm_value sampwidth (le_nat readbuf))"
proof -
  have "le_nat readbuf < 256 ^ sampwidth" using le_nat_bound [of readbuf] assms(3) by simp
  from pcm_value_range [OF assms(1) this]
  have b: "- (2 ^ (8 * sampwidth - 1)) \<le> pcm_value sampwidth (le_nat readbuf)"
    "pcm_value sampwidth (le_nat readbuf) < 2 ^ (8 * sampwidth - 1)" by simp_all
  have "8 * sampwidth - 1 \<le> 24" using assms(2) by simp
  then have "(2::int) ^ (8 * sampwidth - 1) \<le> 2 ^ 24"
    by (intro power_increasing) simp_all
  with b have "\<bar>pcm_value sampwidth (le_nat readbuf)\<bar> \<le> 2 ^ 24" by linarith
  then show ?thesis by (rule f32_of_int)
qed

lemma quantize_in_range_wide:
  assumes fx: "is_f32 x" and lo: "- (1 / 2) \<le> x" and hi: "x < 1 / 2"
  shows "\<exists>bs. quantize 4 (f32 (2 ^ (8 * 4))) x = Inr bs \<and> length bs = 4
    \<and> \<bar>of_int (pcm_value 4 (le_nat bs)) - x * 2 ^ (8 * 4 - 1)\<bar> \<le> 1
    \<and> f32 (of_int (pcm_value 4 (le_nat bs))) = of_int (pcm_value 4 (le_nat bs))"
proof -
  define p where "p = x * 2 ^ 32"
  have "f32 (x * 2 powi 32) = f32 x * 2 powi 32" by (rule f32_scale)
  then have pp: "f32 p = p" using fx by (simp add: is_f32_def p_def)
  then have fp: "is_f32 p" by (simp add: is_f32_def)
  have plo: "- (2 ^ 31) \<le> p" using lo by (simp add: p_def)
  have phi: "p < 2 ^ 31" using hi by (simp add: p_def)
  let ?t = "trunc_zero (f32 (p + 1))"
  from quantize_float_part_wide [OF fp plo phi]
  have t: "- (2 ^ 31) \<le> ?t" "?t < 2 ^ 31"
    and c: "\<bar>of_int (?t div 2) - p / 2\<bar> \<le> 1"
    and e: "f32 (of_int (?t div 2)) = of_int (?t div 2)"
    by blast+
  have sc: "f32 (x * f32 (2 ^ (8 * 4))) = p"
  proof -
    have "f32 (2 ^ (8 * 4)) = (2::real) ^ (8 * 4)" by (rule f32_power2)
    then have "x * f32 (2 ^ (8 * 4)) = p" by (simp add: p_def)
    with pp show ?thesis by (simp only:)
  qed
  have i: "f32_to_int32 (f32 (f32 (x * f32 (2 ^ (8 * 4))) + 1)) = Inr (word_of_int ?t)"
    unfolding sc using t by (simp add: f32_to_int32_def)
  let ?bs = "le_bytes 4 (unat (signed_drop_bit 1 (word_of_int ?t :: 32 word)))"
  have x1: "\<not> x > 1" "\<not> x < - 1" using lo hi by simp_all
  have w: "\<not> (4::nat) = 1" "\<not> (4::nat) > 4" by simp_all
  have q: "quantize 4 (f32 (2 ^ (8 * 4))) x = Inr ?bs"
    unfolding quantize_def Let_def by (simp only: x1 w i if_False sum.case)
  have b: "pcm_value 4 (le_nat ?bs) = ?t div 2"
    using t by (rule quantize_bytes_part_wide)
  have "p / 2 = x * 2 ^ (8 * 4 - 1)" by (simp add: p_def)
  with c have c': "\<bar>of_int (?t div 2) - x * 2 ^ (8 * 4 - 1)\<bar> \<le> 1" by (simp only:)
  have l: "length ?bs = 4" by (rule length_le_bytes)
  from q l c' e show ?thesis unfolding b [symmetric] by blast
qed

lemma quantize_round_trip_sample:
  assumes w: "1 \<le> w" "w \<le> 4" and fx: "is_f32 x"
    and r: "if w = 4 then - (1 / 2) \<le> x \<and> x < 1 / 2
            else - 1 \<le> x \<and> x < 1 - 1 / 2 ^ (8 * w)"
  shows "\<exists>bs. quantize w (f32 (2 ^ (8 * w))) x = Inr bs \<and> length bs = w
    \<and> \<bar>of_int (pcm_value w (le_nat bs)) - x * 2 ^ (8 * w - 1)\<bar> \<le> 1
    \<and> (w \<noteq> 4 \<longrightarrow> \<bar>of_int (pcm_value w (le_nat bs)) - x * 2 ^ (8 * w - 1)\<bar> < 1)
    \<and> f32 (of_int (pcm_value w (le_nat bs))) = of_int (pcm_value w (le_nat bs))"
proof (cases "w = 4")
  case True
  with r have "- (1 / 2) \<le> x" "x < 1 / 2" by simp_all
  from quantize_in_range_wide [OF fx this] show ?thesis unfolding True by blast
next
  case False
  with w have w3: "w = 1 \<or> w = 2 \<or> w = 3" and w': "w \<le> 3" by linarith+
  from False r have "- 1 \<le> x" "x < 1 - 1 / 2 ^ (8 * w)" by simp_all
  from quantize_in_range [OF w3 fx this] obtain bs where
    q: "quantize w (f32 (2 ^ (8 * w))) x = Inr bs" and l: "length bs = w"
    and c: "\<bar>of_int (pcm_value w (le_nat bs)) - x * 2 ^ (8 * w - 1)\<bar> < 1"
    by blast
  from c have c': "\<bar>of_int (pcm_value w (le_nat bs)) - x * 2 ^ (8 * w - 1)\<bar> \<le> 1" by simp
  have e: "f32 (of_int (pcm_value w (le_nat bs))) = of_int (pcm_value w (le_nat bs))"
    using w(1) w' l by (rule mono_sample_exact)
  from q l c c' e show ?thesis by blast
qed

lemma quantize_all_round_trip:
  assumes w: "1 \<le> w" "w \<le> 4"
    and xs: "\<forall>x\<in>set xs. is_f32 x
      \<and> (if w = 4 then - (1 / 2) \<le> x \<and> x < 1 / 2
          else - 1 \<le> x \<and> x < 1 - 1 / 2 ^ (8 * w))"
  shows "\<exists>payload. quantize_all w (f32 (2 ^ (8 * w))) xs = Inr payload
    \<and> length payload = length xs * w
    \<and> (\<forall>i<length xs.
          \<bar>of_int (pcm_value w (le_nat (take w (drop (i * w) payload)))) - xs ! i * 2 ^ (8 * w - 1)\<bar> \<le> 1
        \<and> (w \<noteq> 4 \<longrightarrow>
            \<bar>of_int (pcm_value w (le_nat (take w (drop (i * w) payload)))) - xs ! i * 2 ^ (8 * w - 1)\<bar> < 1)
        \<and> f32 (of_int (pcm_value w (le_nat (take w (drop (i * w) payload)))))
            = of_int (pcm_value w (le_nat (take w (drop (i * w) payload)))))"
proof -
  have "\<exists>payload. quantize_all w (f32 (2 ^ (8 * w))) xs = Inr payload"
    using xs
  proof (induction xs)
    case Nil
    then show ?case by simp
  next
    case (Cons x xs)
    then obtain rest where "quantize_all w (f32 (2 ^ (8 * w))) xs = Inr rest" by auto
    moreover from Cons.prems quantize_round_trip_sample [OF w, of x]
    obtain bs where "quantize w (f32 (2 ^ (8 * w))) x = Inr bs" by auto
    ultimately show ?case by simp
  qed
  then obtain payload where p: "quantize_all w (f32 (2 ^ (8 * w))) xs = Inr payload" ..
  have "\<bar>of_int (pcm_value w (le_nat (take w (drop (i * w) payload)))) - xs ! i * 2 ^ (8 * w - 1)\<bar> \<le> 1
        \<and> (w \<noteq> 4 \<longrightarrow>
            \<bar>of_int (pcm_value w (le_nat (take w (drop (i * w) payload)))) - xs ! i * 2 ^ (8 * w - 1)\<bar> < 1)
        \<and> f32 (of_int (pcm_value w (le_nat (take w (drop (i * w) payload)))))
            = of_int (pcm_value w (le_nat (take w (drop (i * w) payload))))"
    if "i < length xs" for i
  proof -
    from that have "xs ! i \<in> set xs" by simp
    with xs have "is_f32 (xs ! i)
      \<and> (if w = 4 then - (1 / 2) \<le> xs ! i \<and> xs ! i < 1 / 2
          else - 1 \<le> xs ! i \<and> xs ! i < 1 - 1 / 2 ^ (8 * w))"
      by blast
    then have "is_f32 (xs ! i)"
      "if w = 4 then - (1 / 2) \<le> xs ! i \<and> xs ! i < 1 / 2
       else - 1 \<le> xs ! i \<and> xs ! i < 1 - 1 / 2 ^ (8 * w)"
      by blast+
    from quantize_round_trip_sample [OF w this] quantize_all_nth [OF p that] show ?thesis by auto
  qed
  with p quantize_all_length [OF p] show ?thesis by blast
qed

subsection \<open>Reading what was written\<close>

lemma read_fmt_chunk_written:
  assumes "nchannels < 2 ^ 16" and "Fs < 2 ^ 32" and "sampwidth * 8 < 2 ^ 16"
  shows "read_fmt_chunk \<lparr>chunk_id = ''fmt '', chunk_data = WaveFormatEx_bytes nchannels Fs sampwidth,
            chunk_pos = 0\<rparr>
    = Inr \<lparr>f_nchannels = nchannels, f_framerate = Fs, f_sampwidth = sampwidth,
           f_framesize = nchannels * sampwidth\<rparr>"
proof -
  have a: "le_nat (le_bytes 2 1) = 1" "le_nat (le_bytes 2 nchannels) = nchannels"
    "le_nat (le_bytes 4 Fs) = Fs" "le_nat (le_bytes 2 (sampwidth * 8)) = sampwidth * 8"
    using assms by (simp_all only: le_nat_le_bytes) simp_all
  have "(sampwidth * 8 + 7) div 8 = sampwidth" by simp
  with a show ?thesis
    by (simp add: read_fmt_chunk_def chunk_read_def WaveFormatEx_bytes_def WAVE_FORMAT_PCM_def
        Let_def del: le_bytes.simps)
qed

lemma Wave_read_written:
  assumes "1 \<le> nchannels" and "nchannels < 2 ^ 16" and "Fs < 2 ^ 32"
    and "1 \<le> sampwidth" and "sampwidth * 8 < 2 ^ 16"
  shows "Wave_read (wave_file nchannels Fs sampwidth payload)
    = Inr \<lparr>r_framesize = nchannels * sampwidth,
           r_file_chunk = \<lparr>chunk_id = ''RIFF'', chunk_data = bytes_of_string ''WAVE'', chunk_pos = 4\<rparr>,
           r_data_chunk = \<lparr>chunk_id = ''data'', chunk_data = payload, chunk_pos = 0\<rparr>,
           r_comptype = ''NONE'', r_compname = ''not compressed'',
           r_nframes = length payload div (nchannels * sampwidth),
           r_nchannels = nchannels, r_framerate = Fs, r_sampwidth = sampwidth\<rparr>"
  using assms read_fmt_chunk_written [OF assms(2,3,5)]
  by (simp add: Wave_read_def wave_file_def chunk_read_def chunk_size_def bytes_of_string_def)

lemma decode_frames_mono:
  assumes "r_nchannels f = 1" and "r_sampwidth f = w" and "r_framesize f = w"
    and "1 \<le> w" and "w \<le> 4"
    and "chunk_pos (r_data_chunk f) + n * w \<le> length (chunk_data (r_data_chunk f))"
  shows "\<exists>f'. decode_frames (f32 (1 / f32 (real 1))) n f
    = Inr (map (\<lambda>i. f32 (of_int (pcm_value w (le_nat (take w
               (drop (chunk_pos (r_data_chunk f) + i * w) (chunk_data (r_data_chunk f))))))))
             [0..<n], f')"
  using assms
proof (induction n arbitrary: f)
  case 0
  then show ?case by simp
next
  case (Suc n)
  let ?d = "r_data_chunk f"
  let ?buf = "take w (drop (chunk_pos ?d) (chunk_data ?d))"
  let ?f1 = "f\<lparr>r_data_chunk := ?d\<lparr>chunk_pos := chunk_pos ?d + 1 * w\<rparr>\<rparr>"
  have fit: "chunk_pos ?d + w \<le> length (chunk_data ?d)" using Suc.prems(6) by simp
  then have r: "readframes 1 f = Inr (?buf, ?f1)"
    using Suc.prems(3) by (simp add: readframes_def chunk_read_def)
  have len: "length ?buf = w" using fit by simp
  have c: "decode_channels (r_sampwidth f) (r_nchannels f) (f32 (1 / f32 (real 1))) ?buf 0 0
      = Inr (f32 (of_int (pcm_value w (le_nat ?buf))))"
    using mono_frame_decoded [OF Suc.prems(4,5) len] Suc.prems(1,2) by simp
  have "chunk_pos (r_data_chunk ?f1) + n * w \<le> length (chunk_data (r_data_chunk ?f1))"
    using Suc.prems(6) by simp
  with Suc.IH [of ?f1] Suc.prems(1-5) obtain f' where
    d: "decode_frames (f32 (1 / f32 (real 1))) n ?f1
      = Inr (map (\<lambda>i. f32 (of_int (pcm_value w (le_nat (take w
               (drop (chunk_pos ?d + w + i * w) (chunk_data ?d))))))) [0..<n], f')"
    by auto
  have "[0..<Suc n] = 0 # [Suc 0..<Suc n]" by (rule upt_conv_Cons) simp
  also have "[Suc 0..<Suc n] = map Suc [0..<n]" by (rule map_Suc_upt [symmetric])
  finally have "[0..<Suc n] = 0 # map Suc [0..<n]" .
  then have "map (\<lambda>i. f32 (of_int (pcm_value w (le_nat (take w
               (drop (chunk_pos ?d + i * w) (chunk_data ?d))))))) [0..<Suc n]
     = f32 (of_int (pcm_value w (le_nat ?buf)))
       # map (\<lambda>i. f32 (of_int (pcm_value w (le_nat (take w
               (drop (chunk_pos ?d + w + i * w) (chunk_data ?d))))))) [0..<n]"
    by (simp add: comp_def add.assoc del: upt_Suc)
  with r c d show ?case by (simp del: upt_Suc)
qed

lemma writewave_writes:
  assumes "1 \<le> nchannels" and "1 \<le> sampwidth" and "sampwidth \<le> 4" and "0 < Fs"
    and "quantize_all sampwidth (f32 (2 ^ (8 * sampwidth))) input = Inr q"
  shows "writewave True input Fs sampwidth nchannels
    = Inr (True, Some (wave_file nchannels Fs sampwidth
             (take (length input div nchannels * sampwidth * nchannels) q)))"
proof -
  have "length input div nchannels * nchannels \<le> length input" by simp
  then have "length input div nchannels * nchannels * sampwidth \<le> length input * sampwidth"
    by (rule mult_le_mono1)
  then have "length input div nchannels * sampwidth * nchannels \<le> length q"
    using quantize_all_length [OF assms(5)] by (simp add: ac_simps)
  then show ?thesis
    using assms
    by (simp add: writewave_def Let_def setnchannels_def setsampwidth_def setframerate_def
      writeframes_def close_write_def destroy_write_def Wave_write_def
      ensure_header_written_def written_file_def data_chunk_write_def chunk_write_def
      new_chunk_def wave_file_def)
qed

lemma readwave_mono_written:
  assumes w: "1 \<le> w" "w \<le> 4" and Fs: "Fs < 2 ^ 32" and len: "length payload = n * w"
  shows "readwave (Some (wave_file 1 Fs w payload))
    = Inr (True,
           map (\<lambda>i. f32 (of_int (pcm_value w (le_nat (take w (drop (i * w) payload)))))) [0..<n],
           f32 (real Fs))"
proof -
  let ?f = "\<lparr>r_framesize = 1 * w,
           r_file_chunk = \<lparr>chunk_id = ''RIFF'', chunk_data = bytes_of_string ''WAVE'', chunk_pos = 4\<rparr>,
           r_data_chunk = \<lparr>chunk_id = ''data'', chunk_data = payload, chunk_pos = 0\<rparr>,
           r_comptype = ''NONE'', r_compname = ''not compressed'',
           r_nframes = length payload div (1 * w),
           r_nchannels = 1, r_framerate = Fs, r_sampwidth = w\<rparr>"
  have "w * 8 < 2 ^ 16" using w by simp
  then have r: "Wave_read (wave_file 1 Fs w payload) = Inr ?f"
    using w Fs by (intro Wave_read_written) simp_all
  have n: "r_nframes ?f = n" using len w by simp
  have "\<exists>f'. decode_frames (f32 (1 / f32 (real 1))) n ?f
    = Inr (map (\<lambda>i. f32 (of_int (pcm_value w (le_nat (take w
               (drop (chunk_pos (r_data_chunk ?f) + i * w) (chunk_data (r_data_chunk ?f))))))))
             [0..<n], f')"
    using w len by (intro decode_frames_mono) simp_all
  then obtain f' where "decode_frames (f32 (1 / f32 (real 1))) n ?f
    = Inr (map (\<lambda>i. f32 (of_int (pcm_value w (le_nat (take w (drop (i * w) payload)))))) [0..<n], f')"
    by auto
  with r n show ?thesis by (simp add: readwave_def Let_def)
qed


text \<open>
  C1, as amended.  Mono, a sample width from 1 to 4, a frame rate above 0 and below
  \<open>2 ^ 32\<close> that single precision represents, and input floats \<open>x\<close> with
  \<open>- 1 \<le> x < 1 - 1 / 2 ^ (8 * sampwidth)\<close> for the widths 1 to 3 and
  \<open>- 1 / 2 \<le> x < 1 / 2\<close> for the width 4: \<open>writewave\<close> returns true and
  \<open>readwave\<close> on the file it wrote returns true, the same frame rate and one value for
  each input value.  Each returned value is an integer, the quantized sample as it is
  stored and not divided by the full scale: divided by \<open>2 ^ (8 * sampwidth - 1)\<close> it is
  within \<open>1 / 2 ^ (8 * sampwidth - 1)\<close> of the input value, and strictly within for the
  widths 1 to 3.
\<close>

theorem mono_round_trip:
  assumes w: "1 \<le> sampwidth" "sampwidth \<le> 4"
    and Fs: "0 < Fs" "Fs < 2 ^ 32" "is_f32 (real Fs)"
    and xs: "\<forall>x\<in>set input. is_f32 x
      \<and> (if sampwidth = 4 then - (1 / 2) \<le> x \<and> x < 1 / 2
          else - 1 \<le> x \<and> x < 1 - 1 / 2 ^ (8 * sampwidth))"
  shows "\<exists>payload outp.
           writewave True input Fs sampwidth 1
             = Inr (True, Some (wave_file 1 Fs sampwidth payload))
         \<and> readwave (Some (wave_file 1 Fs sampwidth payload)) = Inr (True, outp, real Fs)
         \<and> length outp = length input
         \<and> (\<forall>i<length input.
               outp ! i \<in> \<int>
               \<and> \<bar>outp ! i / 2 ^ (8 * sampwidth - 1) - input ! i\<bar> \<le> 1 / 2 ^ (8 * sampwidth - 1)
               \<and> (sampwidth \<noteq> 4 \<longrightarrow>
                   \<bar>outp ! i / 2 ^ (8 * sampwidth - 1) - input ! i\<bar> < 1 / 2 ^ (8 * sampwidth - 1)))"
proof -
  let ?H = "(2::real) ^ (8 * sampwidth - 1)"
  let ?pv = "\<lambda>payload i. of_int (pcm_value sampwidth
      (le_nat (take sampwidth (drop (i * sampwidth) payload)))) :: real"
  from quantize_all_round_trip [OF w xs] obtain payload where
    q: "quantize_all sampwidth (f32 (2 ^ (8 * sampwidth))) input = Inr payload"
    and len: "length payload = length input * sampwidth"
    and close: "\<And>i. i < length input \<Longrightarrow> \<bar>?pv payload i - input ! i * ?H\<bar> \<le> 1"
    and strict: "\<And>i. i < length input \<Longrightarrow> sampwidth \<noteq> 4 \<Longrightarrow>
      \<bar>?pv payload i - input ! i * ?H\<bar> < 1"
    and exact: "\<And>i. i < length input \<Longrightarrow> f32 (?pv payload i) = ?pv payload i"
    by blast
  let ?outp = "map (\<lambda>i. f32 (?pv payload i)) [0..<length input]"
  have "writewave True input Fs sampwidth 1
      = Inr (True, Some (wave_file 1 Fs sampwidth
               (take (length input div 1 * sampwidth * 1) payload)))"
    using w Fs(1) q by (intro writewave_writes) simp_all
  then have wr: "writewave True input Fs sampwidth 1
      = Inr (True, Some (wave_file 1 Fs sampwidth payload))"
    using len by simp
  have "readwave (Some (wave_file 1 Fs sampwidth payload)) = Inr (True, ?outp, f32 (real Fs))"
    using w Fs(2) len by (rule readwave_mono_written)
  then have rd: "readwave (Some (wave_file 1 Fs sampwidth payload)) = Inr (True, ?outp, real Fs)"
    using Fs(3) by (simp add: is_f32_def)
  have each: "?outp ! i \<in> \<int> \<and> \<bar>?outp ! i / ?H - input ! i\<bar> \<le> 1 / ?H
      \<and> (sampwidth \<noteq> 4 \<longrightarrow> \<bar>?outp ! i / ?H - input ! i\<bar> < 1 / ?H)"
    if i: "i < length input" for i
  proof -
    let ?q = "?pv payload i"
    have o: "?outp ! i = ?q" using i exact [OF i] by simp
    have H: "0 < ?H" by simp
    have d: "\<bar>?q / ?H - input ! i\<bar> = \<bar>?q - input ! i * ?H\<bar> / ?H"
      using H by (simp add: field_simps abs_divide flip: abs_mult_pos)
    have a: "\<bar>?q / ?H - input ! i\<bar> \<le> 1 / ?H"
      unfolding d using close [OF i] H by (simp add: divide_right_mono)
    have b: "\<bar>?q / ?H - input ! i\<bar> < 1 / ?H" if "sampwidth \<noteq> 4"
      unfolding d using strict [OF i that] H by (simp add: divide_strict_right_mono)
    have "?q \<in> \<int>" by simp
    with a b show ?thesis unfolding o by blast
  qed
  have l: "length ?outp = length input" by simp
  from wr rd l each show ?thesis by (intro exI [of _ payload] exI [of _ ?outp]) blast
qed

lemma is_f32_examples:
  "is_f32 0" "is_f32 (1 / 2)" "is_f32 (- (1 / 2))" "is_f32 8000" "is_f32 1"
  by (simp_all add: is_f32_def f32_half f32_minus f32_numeral)

lemmas written_simps = write_simps WaveFormatEx_bytes_def WAVE_FORMAT_PCM_def quantize_simps
lemmas decoded_simps = decode_simps wave_file_def WaveFormatEx_bytes_def le_bytes_num

lemma is_f32_quarter: "is_f32 (1 / 4)"
proof -
  have "f32 (1 / 2 / 2) = f32 (1 / 2) / 2" by (rule f32_half)
  then show ?thesis using is_f32_examples(2) by (simp add: is_f32_def)
qed

theorem mono_round_trip_witness:
  "is_f32 0 \<and> is_f32 (1 / 2) \<and> is_f32 (- (1 / 2)) \<and> is_f32 (1 / 4)
   \<and> - 1 \<le> (- (1 / 2) :: real) \<and> (1 / 2 :: real) < 1 - 1 / 2 ^ (8 * 2)
   \<and> is_f32 (real 8000)
   \<and> (\<exists>payload outp.
           writewave True [0, 1 / 2, - (1 / 2)] 8000 2 1
             = Inr (True, Some (wave_file 1 8000 2 payload))
         \<and> readwave (Some (wave_file 1 8000 2 payload)) = Inr (True, outp, real 8000)
         \<and> length outp = 3
         \<and> \<bar>outp ! 1 / 2 ^ (8 * 2 - 1) - 1 / 2\<bar> < 1 / 2 ^ (8 * 2 - 1))
   \<and> (\<exists>payload outp.
           writewave True [1 / 4, - (1 / 2)] 8000 4 1
             = Inr (True, Some (wave_file 1 8000 4 payload))
         \<and> readwave (Some (wave_file 1 8000 4 payload)) = Inr (True, outp, real 8000)
         \<and> length outp = 2
         \<and> \<bar>outp ! 0 / 2 ^ (8 * 4 - 1) - 1 / 4\<bar> \<le> 1 / 2 ^ (8 * 4 - 1)
         \<and> \<bar>outp ! 1 / 2 ^ (8 * 4 - 1) - (- (1 / 2))\<bar> \<le> 1 / 2 ^ (8 * 4 - 1))"
proof -
  have h: "\<forall>x\<in>set [0, 1 / 2, - (1 / 2)]. is_f32 x
      \<and> (if (2::nat) = 4 then - (1 / 2) \<le> x \<and> x < 1 / 2
          else - 1 \<le> x \<and> x < 1 - 1 / 2 ^ (8 * 2))"
    by (simp add: is_f32_examples)
  have h4: "\<forall>x\<in>set [1 / 4, - (1 / 2)]. is_f32 x
      \<and> (if (4::nat) = 4 then - (1 / 2) \<le> x \<and> x < 1 / 2
          else - 1 \<le> x \<and> x < 1 - 1 / 2 ^ (8 * 4))"
    by (simp add: is_f32_examples is_f32_quarter)
  have f: "is_f32 (real 8000)" by (simp add: is_f32_examples)
  from mono_round_trip [of 2 8000 "[0, 1 / 2, - (1 / 2)]", OF _ _ _ _ f h]
  obtain payload outp where
    "writewave True [0, 1 / 2, - (1 / 2)] 8000 2 1 = Inr (True, Some (wave_file 1 8000 2 payload))"
    "readwave (Some (wave_file 1 8000 2 payload)) = Inr (True, outp, real 8000)"
    "length outp = length [0, 1 / 2, - (1 / 2) :: real]"
    "\<forall>i<length [0, 1 / 2, - (1 / 2) :: real].
        outp ! i \<in> \<int>
      \<and> \<bar>outp ! i / 2 ^ (8 * 2 - 1) - [0, 1 / 2, - (1 / 2)] ! i\<bar> \<le> 1 / 2 ^ (8 * 2 - 1)
      \<and> ((2::nat) \<noteq> 4 \<longrightarrow>
          \<bar>outp ! i / 2 ^ (8 * 2 - 1) - [0, 1 / 2, - (1 / 2)] ! i\<bar> < 1 / 2 ^ (8 * 2 - 1))"
    by auto
  then have "writewave True [0, 1 / 2, - (1 / 2)] 8000 2 1 = Inr (True, Some (wave_file 1 8000 2 payload))
    \<and> readwave (Some (wave_file 1 8000 2 payload)) = Inr (True, outp, real 8000)
    \<and> length outp = 3
    \<and> \<bar>outp ! 1 / 2 ^ (8 * 2 - 1) - 1 / 2\<bar> < 1 / 2 ^ (8 * 2 - 1)"
    by auto
  then have two: "\<exists>payload outp.
           writewave True [0, 1 / 2, - (1 / 2)] 8000 2 1
             = Inr (True, Some (wave_file 1 8000 2 payload))
         \<and> readwave (Some (wave_file 1 8000 2 payload)) = Inr (True, outp, real 8000)
         \<and> length outp = 3
         \<and> \<bar>outp ! 1 / 2 ^ (8 * 2 - 1) - 1 / 2\<bar> < 1 / 2 ^ (8 * 2 - 1)"
    by blast
  from mono_round_trip [of 4 8000 "[1 / 4, - (1 / 2)]", OF _ _ _ _ f h4]
  obtain payload outp where
    "writewave True [1 / 4, - (1 / 2)] 8000 4 1 = Inr (True, Some (wave_file 1 8000 4 payload))"
    "readwave (Some (wave_file 1 8000 4 payload)) = Inr (True, outp, real 8000)"
    "length outp = length [1 / 4, - (1 / 2) :: real]"
    "\<forall>i<length [1 / 4, - (1 / 2) :: real].
        outp ! i \<in> \<int>
      \<and> \<bar>outp ! i / 2 ^ (8 * 4 - 1) - [1 / 4, - (1 / 2)] ! i\<bar> \<le> 1 / 2 ^ (8 * 4 - 1)
      \<and> ((4::nat) \<noteq> 4 \<longrightarrow>
          \<bar>outp ! i / 2 ^ (8 * 4 - 1) - [1 / 4, - (1 / 2)] ! i\<bar> < 1 / 2 ^ (8 * 4 - 1))"
    by auto
  then have "writewave True [1 / 4, - (1 / 2)] 8000 4 1 = Inr (True, Some (wave_file 1 8000 4 payload))
    \<and> readwave (Some (wave_file 1 8000 4 payload)) = Inr (True, outp, real 8000)
    \<and> length outp = 2
    \<and> \<bar>outp ! 0 / 2 ^ (8 * 4 - 1) - 1 / 4\<bar> \<le> 1 / 2 ^ (8 * 4 - 1)
    \<and> \<bar>outp ! 1 / 2 ^ (8 * 4 - 1) - (- (1 / 2))\<bar> \<le> 1 / 2 ^ (8 * 4 - 1)"
    by auto
  then have four: "\<exists>payload outp.
           writewave True [1 / 4, - (1 / 2)] 8000 4 1
             = Inr (True, Some (wave_file 1 8000 4 payload))
         \<and> readwave (Some (wave_file 1 8000 4 payload)) = Inr (True, outp, real 8000)
         \<and> length outp = 2
         \<and> \<bar>outp ! 0 / 2 ^ (8 * 4 - 1) - 1 / 4\<bar> \<le> 1 / 2 ^ (8 * 4 - 1)
         \<and> \<bar>outp ! 1 / 2 ^ (8 * 4 - 1) - (- (1 / 2))\<bar> \<le> 1 / 2 ^ (8 * 4 - 1)"
    by blast
  have "- 1 \<le> (- (1 / 2) :: real)" "(1 / 2 :: real) < 1 - 1 / 2 ^ (8 * 2)"
    by simp_all
  with two four f is_f32_examples(1-3) is_f32_quarter show ?thesis by (simp only: simp_thms)
qed


lemma half_written:
  "writewave True [1 / 2] 8000 2 1 = Inr (True, Some (wave_file 1 8000 2 [0x00, 0x40]))"
  by (simp add: written_simps)

lemma half_read:
  "readwave (Some (wave_file 1 8000 2 [0x00, 0x40])) = Inr (True, [16384], 8000)"
  by (simp add: decoded_simps)

lemma top_written:
  "writewave True [255 / 256] 8000 1 1 = Inr (True, Some (wave_file 1 8000 1 [0x00]))"
  by (simp add: written_simps)

lemma zero_byte_read:
  "readwave (Some (wave_file 1 8000 1 [0x00])) = Inr (True, [- 128], 8000)"
  by (simp add: decoded_simps)

lemma below_written:
  "writewave True [- 2] 8000 1 1 = Inr (True, Some (wave_file 1 8000 1 [0x00]))"
  by (simp add: written_simps)

lemma rate_written:
  "writewave True [0] 4294967296 1 1 = Inr (True, Some (wave_file 1 4294967296 1 [0x80]))"
  by (simp add: written_simps)

lemma rate_read:
  "readwave (Some (wave_file 1 4294967296 1 [0x80])) = Inr (True, [0], 0)"
  by (simp add: decoded_simps)

lemma width4_half: "quantize 4 (f32 (2 ^ (8 * 4))) (1 / 2) = Inl FloatToIntRange"
proof -
  have "f32 (2 ^ 31) \<le> f32 (2 ^ 31 + 1)" by (rule f32_mono) simp
  then have "2 ^ 31 \<le> f32 (2 ^ 31 + 1)" by (simp only: f32_power2)
  then have "of_int (2 ^ 31) \<le> f32 (2 ^ 31 + 1)" by simp
  then have "2 ^ 31 \<le> \<lfloor>f32 (2 ^ 31 + 1)\<rfloor>" by (simp only: le_floor_iff)
  moreover have "\<lfloor>f32 (2 ^ 31 + 1)\<rfloor> \<le> \<lceil>f32 (2 ^ 31 + 1)\<rceil>" by (rule floor_le_ceiling)
  ultimately have "2 ^ 31 \<le> trunc_zero (f32 (2 ^ 31 + 1))"
    by (simp add: trunc_zero_def)
  then have "f32_to_int32 (f32 (2 ^ 31 + 1)) = Inl FloatToIntRange"
    by (simp add: f32_to_int32_def)
  moreover have "f32 (1 / 2 * f32 (2 ^ (8 * 4))) = 2 ^ 31"
    using f32_power2 [of 31] by (simp add: f32_power2 [of 32, simplified])
  ultimately show ?thesis by (simp add: quantize_def)
qed

text \<open>At width 4 the distance can be the whole bound.\<close>

lemma f32_tie: "f32 16777219 = 16777220"
proof -
  have e: "f32_exponent 16777219 = 24" by (rule f32_exponent_eq) simp_all
  have "\<lfloor>16777219 / 2 :: real\<rfloor> = 8388609" by linarith
  then have "round_even (16777219 / 2) = 8388610"
    by (simp add: round_even_def Let_def)
  then show ?thesis by (simp add: f32_def e)
qed

lemma width4_bound_attained:
  "quantize 4 (f32 (2 ^ (8 * 4))) (8388609 / 2147483648) = Inr [0x02, 0x00, 0x80, 0x00]
   \<and> pcm_value 4 (le_nat [0x02, 0x00, 0x80, 0x00 :: byte]) = 8388610
   \<and> \<bar>8388610 / 2 ^ (8 * 4 - 1) - 8388609 / 2147483648\<bar> = (1 / 2 ^ (8 * 4 - 1) :: real)"
proof -
  have "f32 (of_int 8388609 * 2 powi 1) = of_int 8388609 * 2 powi 1"
    by (rule f32_representable) simp
  then have "f32 16777218 = 16777218" by simp
  then have "f32 (8388609 / 2147483648 * f32 (2 ^ (8 * 4))) = 16777218"
    using f32_power2 [of 32] by simp
  then have "f32 (f32 (8388609 / 2147483648 * f32 (2 ^ (8 * 4))) + 1) = 16777220"
    by (simp add: f32_tie)
  then show ?thesis
    by (simp add: quantize_simps le_bytes_num pcm_value_def)
qed


theorem mono_round_trip_counterexample:
  "writewave True [1 / 2] 8000 2 1 = Inr (True, Some (wave_file 1 8000 2 [0x00, 0x40]))
   \<and> readwave (Some (wave_file 1 8000 2 [0x00, 0x40])) = Inr (True, [16384], 8000)
   \<and> \<not> \<bar>16384 - 1 / 2\<bar> \<le> (1 / 2 ^ (8 * 2 - 1) :: real)
   \<and> writewave True [255 / 256] 8000 1 1 = Inr (True, Some (wave_file 1 8000 1 [0x00]))
   \<and> writewave True [- 2] 8000 1 1 = Inr (True, Some (wave_file 1 8000 1 [0x00]))
   \<and> readwave (Some (wave_file 1 8000 1 [0x00])) = Inr (True, [- 128], 8000)
   \<and> \<not> \<bar>- 128 / 2 ^ (8 * 1 - 1) - 255 / 256\<bar> \<le> (1 / 2 ^ (8 * 1 - 1) :: real)
   \<and> \<not> \<bar>- 128 / 2 ^ (8 * 1 - 1) - (- 2)\<bar> \<le> (1 / 2 ^ (8 * 1 - 1) :: real)
   \<and> writewave True [1 / 2] 8000 4 1 = Inl FloatToIntRange
   \<and> writewave True [0] 4294967296 1 1 = Inr (True, Some (wave_file 1 4294967296 1 [0x80]))
   \<and> readwave (Some (wave_file 1 4294967296 1 [0x80])) = Inr (True, [0], 0)"
proof -
  have a: "writewave True [1 / 2] 8000 4 1 = Inl FloatToIntRange"
    using width4_half by (simp add: writewave_def)
  have b: "\<not> \<bar>16384 - 1 / 2\<bar> \<le> (1 / 2 ^ (8 * 2 - 1) :: real)"
    "\<not> \<bar>- 128 / 2 ^ (8 * 1 - 1) - 255 / 256\<bar> \<le> (1 / 2 ^ (8 * 1 - 1) :: real)"
    "\<not> \<bar>- 128 / 2 ^ (8 * 1 - 1) - (- 2)\<bar> \<le> (1 / 2 ^ (8 * 1 - 1) :: real)"
    by simp_all
  from a b half_written half_read top_written below_written zero_byte_read
    rate_written rate_read
  show ?thesis by (simp only: simp_thms)
qed

theorem decoded_sample_witness:
  "(1::nat) \<le> 1 \<and> (1::nat) \<le> 4 \<and> (0::nat) < 1 \<and> length [0xFF :: byte] = 1 * 1
   \<and> sint (channel_sample 1 [0xFF] 0) = 127
   \<and> decode_channels 1 1 (f32 (1 / f32 (real 1))) [0xFF] 0 0 = Inr 127"
  using decoded_sample_is_the_signed_integer [of 1 0 1 "[0xFF]"]
  by (simp add: pcm_value_def f32_numeral)

theorem normalized_output_counterexample:
  "readwave (Some (wave_file 1 8000 1 [0x00, 0xFF])) = Inr (True, [- 128, 127], 8000)
   \<and> \<not> - 1 \<le> (- 128 :: real) \<and> \<not> (127 :: real) \<le> 1"
  by (simp add: decoded_simps)

text \<open>
  C4.  The bytes that the encoder stores for the input 1.0 at width 2: the quantized
  sample is 32768, which a 16 bit sample cannot hold, and the two bytes stored are 00 80,
  those of - 32768 and the same as for the input - 1.0; \<open>readwave\<close> returns - 32768
  for them.  At width 1 the input 1.0 is stored as the byte 00.  For the negative input
  \<open>- 3 / 512\<close> at width 1 the stored byte is 0x80, where the floor of
  \<open>(clipped * 2 ^ 8 + 1) / 2\<close> with 0x80 added is 0x7F: the conversion to
  \<^verbatim>\<open>int32_t\<close> rounds towards zero before the shift.
\<close>

theorem full_scale_input_wraps:
  "quantize 2 (f32 (2 ^ (8 * 2))) 1 = Inr [0x00, 0x80]
   \<and> quantize 2 (f32 (2 ^ (8 * 2))) (- 1) = Inr [0x00, 0x80]
   \<and> pcm_value 2 (le_nat [0x00, 0x80]) = - 32768
   \<and> writewave True [1] 8000 2 1 = Inr (True, Some (wave_file 1 8000 2 [0x00, 0x80]))
   \<and> readwave (Some (wave_file 1 8000 2 [0x00, 0x80])) = Inr (True, [- 32768], 8000)
   \<and> quantize 1 (f32 (2 ^ (8 * 1))) 1 = Inr [0x00]
   \<and> quantize 1 (f32 (2 ^ (8 * 1))) (- 3 / 512) = Inr [0x80]
   \<and> \<lfloor>((- 3 / 512) * 2 ^ (8 * 1) + 1) / 2 :: real\<rfloor> + 0x80 = 0x7F"
proof -
  have a: "quantize 2 (f32 (2 ^ (8 * 2))) 1 = Inr [0x00, 0x80]"
    "quantize 2 (f32 (2 ^ (8 * 2))) (- 1) = Inr [0x00, 0x80]"
    "quantize 1 (f32 (2 ^ (8 * 1))) 1 = Inr [0x00]"
    by (simp_all add: quantize_simps)
  have b: "quantize 1 (f32 (2 ^ (8 * 1))) (- 3 / 512) = Inr [0x80]"
    by (simp add: quantize_simps ceiling_neg_half)
  have c: "pcm_value 2 (le_nat [0x00, 0x80]) = - 32768"
    by (simp add: pcm_value_def)
  have d: "writewave True [1] 8000 2 1 = Inr (True, Some (wave_file 1 8000 2 [0x00, 0x80]))"
    by (simp add: written_simps)
  have e: "readwave (Some (wave_file 1 8000 2 [0x00, 0x80])) = Inr (True, [- 32768], 8000)"
    by (simp add: decoded_simps)
  have "\<lfloor>- (1 / 4) :: real\<rfloor> = - 1" by (simp add: floor_eq_iff)
  then have f: "\<lfloor>((- 3 / 512) * 2 ^ (8 * 1) + 1) / 2 :: real\<rfloor> + 0x80 = 0x7F"
    by simp
  from a b c d e f show ?thesis by (simp only: simp_thms)
qed

end
